theory Spec2Isabelle
  imports Main "HOL-Library.AList" "HOL-Library.Sublist"
begin

section \<open>Python values\<close>

text \<open>
  A Python \<open>str\<close> is a \<open>string\<close>; a character is a code point below 256. The parsed
  payload of a response, and every value the program passes around, is a \<open>json\<close> value:
  \<open>JNull\<close> is \<open>None\<close>, \<open>JArr\<close> a list, \<open>JObj\<close> a dict in insertion order with distinct
  keys. Numbers are integers (a float behaves as an integer does on every path below,
  it is neither iterable nor subscriptable and it is falsy when zero, but for the word
  \<open>float\<close> in the text of such a TypeError and the decimal point when it is printed).

  An exception is an \<open>error\<close>; it carries the text that \<open>str(err)\<close> gives, because the
  program prints that text. \<open>HTTPError\<close> also keeps the status that caused it.
\<close>

datatype json =
    JNull
  | JBool bool
  | JNum int
  | JStr string
  | JArr "json list"
  | JObj "(string \<times> json) list"

type_synonym pydict = "(string \<times> json) list"

datatype error =
    HTTPError nat string
  | ConnectionError string
  | JSONDecodeError string
  | TypeError string
  | KeyError string
  | EOFError
  | MarkupError string

text \<open>
  \<open>str(err)\<close>. A KeyError shows the \<open>repr\<close> of the key, which for the keys of this
  program (\<open>name\<close>, \<open>id\<close>, \<open>color\<close>, decimal numbers) is the key between single quotes;
  \<open>input()\<close> at the end of the input raises \<open>EOFError('EOF when reading a line')\<close>.
\<close>

fun error_text :: "error \<Rightarrow> string" where
  "error_text (HTTPError status text) = text"
| "error_text (ConnectionError text) = text"
| "error_text (JSONDecodeError text) = text"
| "error_text (TypeError text) = text"
| "error_text (KeyError k) = [CHR 0x27] @ k @ [CHR 0x27]"
| "error_text EOFError = ''EOF when reading a line''"
| "error_text (MarkupError text) = text"

text \<open>\<open>type(x).__name__\<close>, as the messages of TypeError name it.\<close>

fun type_name :: "json \<Rightarrow> string" where
  "type_name JNull = ''NoneType''"
| "type_name (JBool b) = ''bool''"
| "type_name (JNum n) = ''int''"
| "type_name (JStr s) = ''str''"
| "type_name (JArr xs) = ''list''"
| "type_name (JObj kvs) = ''dict''"

text \<open>\<open>bool(x)\<close>, as \<open>if x\<close> and \<open>if not x\<close> use it.\<close>

fun truthy :: "json \<Rightarrow> bool" where
  "truthy JNull = False"
| "truthy (JBool b) = b"
| "truthy (JNum n) = (n \<noteq> 0)"
| "truthy (JStr s) = (s \<noteq> [])"
| "truthy (JArr xs) = (xs \<noteq> [])"
| "truthy (JObj kvs) = (kvs \<noteq> [])"

text \<open>\<open>x[k]\<close> with a string key: a dict looks the key up, anything else raises TypeError
  (with the message of CPython 3.11 and later).\<close>

fun getitem :: "json \<Rightarrow> string \<Rightarrow> error + json" where
  "getitem (JObj kvs) k = (case map_of kvs k of None \<Rightarrow> Inl (KeyError k) | Some v \<Rightarrow> Inr v)"
| "getitem (JArr xs) k = Inl (TypeError ''list indices must be integers or slices, not str'')"
| "getitem (JStr s) k =
     Inl (TypeError (''string indices must be integers, not '' @ [CHR 0x27] @ ''str'' @ [CHR 0x27]))"
| "getitem v k =
     Inl (TypeError ([CHR 0x27] @ type_name v @ [CHR 0x27] @ '' object is not subscriptable''))"

text \<open>Iteration, as \<open>enumerate(x, start=1)\<close> does it: a list gives its elements, a dict
  its keys, a string its characters; \<open>None\<close>, a bool and a number are not iterable.\<close>

fun py_iter :: "json \<Rightarrow> error + json list" where
  "py_iter (JArr xs) = Inr xs"
| "py_iter (JObj kvs) = Inr (map (\<lambda>kv. JStr (fst kv)) kvs)"
| "py_iter (JStr s) = Inr (map (\<lambda>c. JStr [c]) s)"
| "py_iter v = Inl (TypeError ([CHR 0x27] @ type_name v @ [CHR 0x27] @ '' object is not iterable''))"

text \<open>\<open>d.update(other)\<close>: each key of \<open>other\<close> overwrites in place or is appended.\<close>

definition dict_update :: "pydict \<Rightarrow> pydict \<Rightarrow> pydict" where
  "dict_update d other = fold (\<lambda>kv. AList.update (fst kv) (snd kv)) other d"

subsection \<open>Strings\<close>

text \<open>\<open>str.isspace\<close> on the code points below 256.\<close>

definition isspace :: "char \<Rightarrow> bool" where
  "isspace c = (of_char c \<in> {9, 10, 11, 12, 13, 28, 29, 30, 31, 32, 133, 160 :: nat})"

definition strip :: "string \<Rightarrow> string" where
  "strip s = rev (dropWhile isspace (rev (dropWhile isspace s)))"

text \<open>
  \<open>str.upper\<close> and \<open>str.lower\<close> on the ASCII letters. The program only compares their
  results with \<open>'F'\<close>, \<open>'y'\<close> and \<open>'n'\<close>, and no character outside ASCII is mapped to one
  of these by Python, so leaving the other characters alone gives the same comparisons.
\<close>

definition upper_char :: "char \<Rightarrow> char" where
  "upper_char c =
     (case map_of (zip ''abcdefghijklmnopqrstuvwxyz'' ''ABCDEFGHIJKLMNOPQRSTUVWXYZ'') c of
        None \<Rightarrow> c | Some u \<Rightarrow> u)"

definition lower_char :: "char \<Rightarrow> char" where
  "lower_char c =
     (case map_of (zip ''ABCDEFGHIJKLMNOPQRSTUVWXYZ'' ''abcdefghijklmnopqrstuvwxyz'') c of
        None \<Rightarrow> c | Some l \<Rightarrow> l)"

definition upper :: "string \<Rightarrow> string" where
  "upper s = map upper_char s"

definition lower :: "string \<Rightarrow> string" where
  "lower s = map lower_char s"

text \<open>\<open>str(i)\<close> for a natural number: its decimal digits.\<close>

fun str_nat :: "nat \<Rightarrow> string" where
  "str_nat n =
     (if n < 10 then [''0123456789'' ! n]
      else str_nat (n div 10) @ [''0123456789'' ! (n mod 10)])"

declare str_nat.simps [simp del]

text \<open>\<open>str(i)\<close> for an integer.\<close>

definition str_int :: "int \<Rightarrow> string" where
  "str_int i = (if i < 0 then ''-'' @ str_nat (nat (- i)) else str_nat (nat i))"

text \<open>\<open>','.join(xs)\<close>: every item must be a \<open>str\<close>; the first that is not raises
  TypeError, which names its index.\<close>

fun join_strs :: "string \<Rightarrow> string list \<Rightarrow> string" where
  "join_strs sep [] = []"
| "join_strs sep [x] = x"
| "join_strs sep (x # y # ys) = x @ sep @ join_strs sep (y # ys)"

fun as_strs :: "nat \<Rightarrow> json list \<Rightarrow> error + string list" where
  "as_strs i [] = Inr []"
| "as_strs i (JStr s # xs) = (case as_strs (Suc i) xs of Inl e \<Rightarrow> Inl e | Inr ss \<Rightarrow> Inr (s # ss))"
| "as_strs i (x # xs) =
     Inl (TypeError (''sequence item '' @ str_nat i @ '': expected str instance, '' @
                     type_name x @ '' found''))"

definition str_join :: "string \<Rightarrow> json list \<Rightarrow> error + string" where
  "str_join sep xs = (case as_strs 0 xs of Inl e \<Rightarrow> Inl e | Inr ss \<Rightarrow> Inr (join_strs sep ss))"

section \<open>constants.py\<close>

definition TRELLO_API_BASE_URL :: string where
  "TRELLO_API_BASE_URL = ''https://api.trello.com/1''"

definition VALID_COLORS :: "string list" where
  "VALID_COLORS = [''yellow'', ''purple'', ''blue'', ''red'', ''green'', ''orange'',
                   ''black'', ''sky'', ''pink'', ''lime'', ''null'']"

definition MIN_CARD_TITLE_LENGTH :: nat where
  "MIN_CARD_TITLE_LENGTH = 3"

section \<open>The world: terminal, network and what was observed\<close>

text \<open>
  The program talks to a terminal and to an HTTP server. The world holds the lines the
  user will still type (\<open>input()\<close> on no line raises EOFError), the server (its answer
  may depend on everything that happened before; \<open>Inl text\<close> is a transport failure, which
  \<open>requests\<close> raises as ConnectionError with that text), the trace of what the program
  did, in order (requests sent, messages printed, prompts shown), and the library
  functions that are taken as given.

  An endpoint keeps the value an f-string interpolates (\<open>f'boards/{board_id}/lists'\<close>
  is \<open>BoardLists board_id\<close>); a message keeps the values its text is formatted from.
\<close>

datatype meth = GET | POST

datatype endpoint =
    MembersMeBoards
  | BoardLists json
  | BoardLabels json
  | Labels
  | Cards
  | CardComments json

datatype prompt =
    SelectBoard
  | SelectColumn
  | EnterCardTitle
  | EnterCardDescription
  | SelectLabel
  | EnterLabelName
  | EnterLabelColor
  | NoBoardTryAgain
  | NoListTryAgain
  | AddCommentOption
  | EnterComment
  | AddAnotherCard
  | TryAgain

datatype option_line =
    LabelLine string json json
  | CreateNewLabelLine
  | FinishLine

datatype msg =
    MissingCredentials
  | Blank
  | NoBoardsFound
  | BoardPanel "(string \<times> json) list"
  | SelectedBoard json
  | NoColumnsFound
  | ListPanel "(string \<times> json) list"
  | SelectedColumn json
  | AddCardDetails
  | TitleTooShort
  | LabelPanel "option_line list"
  | LabelSelected nat
  | LabelsSelected nat
  | InvalidSelection string
  | LabelNameEmpty
  | NewLabelCreated string
  | NoLabelsSelected
  | CommentAdded
  | CardAdded string
  | HttpErrorOccurred
  | ErrorDetails error
  | AnErrorOccurred error
  | InvalidChoice
  | InvalidYesNo

datatype event =
    Http meth string endpoint pydict
  | Out msg
  | Ask prompt

text \<open>
  A response as \<open>requests\<close> hands it over: the status, the reason phrase and the URL (the
  text of an HTTPError is built from these three), and the body, which is JSON or not
  (\<open>Inl text\<close>: \<open>Response.json()\<close> raises JSONDecodeError with that text).
\<close>

record response =
  status_code :: nat
  reason :: string
  url :: string
  json_body :: "string + json"

text \<open>
  Three functions are parameters of the model: rich's \<open>Style.normalize\<close>, which maps the
  name of a style to its canonical form; the text of the error, if any, that closing a
  tag \<open>[@name=parameters]\<close> raises when rich evaluates its parameters; and Python's
  \<open>repr\<close> of a list or dict. Every theorem below holds whatever these functions are.
\<close>

record library =
  style_normalize :: "string \<Rightarrow> string"
  meta_error :: "string \<Rightarrow> string option"
  py_repr :: "json \<Rightarrow> string"

record world =
  stdin :: "string list"
  server :: "event list \<Rightarrow> meth \<Rightarrow> string \<Rightarrow> endpoint \<Rightarrow> pydict \<Rightarrow> string + response"
  trace :: "event list"
  lib :: library

type_synonym 'a io = "world \<Rightarrow> (error + 'a) \<times> world"

definition io_bind :: "'a io \<Rightarrow> ('a \<Rightarrow> 'b io) \<Rightarrow> 'b io" where
  "io_bind m f w = (case m w of (Inl e, w') \<Rightarrow> (Inl e, w') | (Inr x, w') \<Rightarrow> f x w')"

definition io_lift :: "error + 'a \<Rightarrow> 'a io" where
  "io_lift r w = (r, w)"

definition emit :: "event \<Rightarrow> world \<Rightarrow> world" where
  "emit e w = w\<lparr>trace := trace w @ [e]\<rparr>"

section \<open>rich: console markup\<close>

text \<open>
  \<open>Console.print\<close> of a string, and of a \<open>Panel\<close> around a string, renders the string as
  console markup before anything is written (\<open>rich.markup.render\<close>). A tag is \<open>[\<close>, one
  of \<open>a-z # / @\<close>, then the characters up to the next \<open>]\<close>, none of them \<open>[\<close>; an odd number
  of backslashes before it escapes it. An opening tag is pushed on a stack under its
  normalised name. A closing tag \<open>[/name]\<close> removes the topmost open tag of that name and
  \<open>[/]\<close> the topmost open tag; when there is none, \<open>MarkupError\<close> is raised. Tags still
  open at the end are closed silently.
\<close>

type_synonym tag = "string \<times> string option"

definition tag_start :: "char \<Rightarrow> bool" where
  "tag_start ch \<longleftrightarrow> ch \<in> set ''abcdefghijklmnopqrstuvwxyz#/@''"

definition in_tag :: "char \<Rightarrow> bool" where
  "in_tag ch \<longleftrightarrow> ch \<noteq> CHR ''['' \<and> ch \<noteq> CHR '']''"

definition is_backslash :: "char \<Rightarrow> bool" where
  "is_backslash ch \<longleftrightarrow> ch = CHR 0x5C"

text \<open>The text after a \<open>[\<close>: the tag it starts, if any, and what follows the tag.\<close>

definition take_tag :: "string \<Rightarrow> (string \<times> string) option" where
  "take_tag s =
     (case s of
        [] \<Rightarrow> None
      | ch # _ \<Rightarrow>
          if tag_start ch then
            (case dropWhile in_tag s of
               [] \<Rightarrow> None
             | closing # rest \<Rightarrow>
                 if closing = CHR '']'' then Some (takeWhile in_tag s, rest) else None)
          else None)"

text \<open>\<open>pop_style\<close>: the stack has its top first.\<close>

fun pop_style :: "string \<Rightarrow> tag list \<Rightarrow> (tag \<times> tag list) option" where
  "pop_style style_name [] = None"
| "pop_style style_name (t # ts) =
     (if fst t = style_name then Some (t, ts)
      else (case pop_style style_name ts of
              None \<Rightarrow> None
            | Some (found, ts') \<Rightarrow> Some (found, t # ts')))"

text \<open>Closing a tag whose name starts with \<open>@\<close> evaluates its parameters, if it has any.\<close>

definition close_meta :: "library \<Rightarrow> tag \<Rightarrow> string option" where
  "close_meta L open_tag =
     (if take 1 (fst open_tag) = ''@'' then
        (case snd open_tag of
           None \<Rightarrow> None
         | Some parameters \<Rightarrow> if parameters = [] then None else meta_error L parameters)
      else None)"

text \<open>One tag, found at \<open>position\<close>: the text of the MarkupError it raises, or the new stack.\<close>

definition apply_tag :: "library \<Rightarrow> nat \<Rightarrow> tag list \<Rightarrow> string \<Rightarrow> string + tag list" where
  "apply_tag L position stack tag_text =
     (let name = takeWhile (\<lambda>ch. ch \<noteq> CHR ''='') tag_text;
          parameters = (if CHR ''='' \<in> set tag_text
                        then Some (tl (dropWhile (\<lambda>ch. ch \<noteq> CHR ''='') tag_text)) else None) in
      if take 1 name = ''/'' then
        (let style_name = strip (tl name) in
         if style_name \<noteq> [] then
           (case pop_style (style_normalize L style_name) stack of
              None \<Rightarrow>
                Inl (''closing tag '' @ [CHR 0x27] @ ''['' @ tag_text @ '']'' @ [CHR 0x27] @
                     '' at position '' @ str_nat position @
                     '' doesn'' @ [CHR 0x27] @ ''t match any open tag'')
            | Some (open_tag, stack') \<Rightarrow>
                (case close_meta L open_tag of Some text \<Rightarrow> Inl text | None \<Rightarrow> Inr stack'))
         else
           (case stack of
              [] \<Rightarrow>
                Inl (''closing tag '' @ [CHR 0x27] @ ''[/]'' @ [CHR 0x27] @
                     '' at position '' @ str_nat position @ '' has nothing to close'')
            | open_tag # stack' \<Rightarrow>
                (case close_meta L open_tag of Some text \<Rightarrow> Inl text | None \<Rightarrow> Inr stack')))
      else Inr ((style_normalize L name, parameters) # stack))"

lemma take_tag_shorter: "take_tag s = Some (t, rest) \<Longrightarrow> length rest < length s"
proof -
  assume "take_tag s = Some (t, rest)"
  then obtain closing where "dropWhile in_tag s = closing # rest"
    by (auto simp: take_tag_def split: list.splits if_splits)
  then have "length (closing # rest) \<le> length s"
    by (metis length_dropWhile_le)
  then show ?thesis by simp
qed

text \<open>
  The scan of a markup string from \<open>position\<close> on, with the tags open so far: the text
  of the MarkupError raised, or \<open>None\<close> when the string renders.
\<close>

function scan :: "library \<Rightarrow> nat \<Rightarrow> tag list \<Rightarrow> string \<Rightarrow> string option" where
  "scan L position stack [] = None"
| "scan L position stack (ch # rest) =
     (if is_backslash ch then
        (let escapes = length (takeWhile is_backslash (ch # rest));
             after = dropWhile is_backslash (ch # rest) in
         case after of
           [] \<Rightarrow> None
         | bracket # body \<Rightarrow>
             (case (if bracket = CHR ''['' then take_tag body else None) of
                None \<Rightarrow> scan L (position + escapes) stack after
              | Some (tag_text, rest') \<Rightarrow>
                  if odd escapes then scan L (position + escapes + length tag_text + 2) stack rest'
                  else
                    (case apply_tag L (position + escapes) stack tag_text of
                       Inl text \<Rightarrow> Some text
                     | Inr stack' \<Rightarrow>
                         scan L (position + escapes + length tag_text + 2) stack' rest')))
      else
        (case (if ch = CHR ''['' then take_tag rest else None) of
           None \<Rightarrow> scan L (position + 1) stack rest
         | Some (tag_text, rest') \<Rightarrow>
             (case apply_tag L position stack tag_text of
                Inl text \<Rightarrow> Some text
              | Inr stack' \<Rightarrow> scan L (position + length tag_text + 2) stack' rest')))"
  by pat_completeness auto
termination
proof (relation "measure (\<lambda>(L, position, stack, s). length s)", goal_cases)
  case 1
  show ?case by simp
next
  case (2 L position stack ch rest escapes after bracket body)
  then have "length (dropWhile is_backslash rest) \<le> length rest"
    by (simp add: length_dropWhile_le)
  with 2 show ?case by (auto split: if_splits)
next
  case (3 L position stack ch rest escapes after bracket body x2 tag_text rest')
  then have a: "bracket # body = dropWhile is_backslash rest"
    and t: "take_tag body = Some (tag_text, rest')"
    by (auto split: if_splits)
  from take_tag_shorter [OF t] have "length rest' < length body" .
  moreover from a have "length (bracket # body) \<le> length rest"
    by (metis length_dropWhile_le)
  ultimately show ?case by simp
next
  case (4 L position stack ch rest escapes after bracket body x2 tag_text rest' x2a)
  then have a: "bracket # body = dropWhile is_backslash rest"
    and t: "take_tag body = Some (tag_text, rest')"
    by (auto split: if_splits)
  from take_tag_shorter [OF t] have "length rest' < length body" .
  moreover from a have "length (bracket # body) \<le> length rest"
    by (metis length_dropWhile_le)
  ultimately show ?case by simp
next
  case 5
  then show ?case by simp
next
  case (6 L position stack ch rest x2 tag_text rest' x2a)
  then have "take_tag rest = Some (tag_text, rest')" by (auto split: if_splits)
  from take_tag_shorter [OF this] show ?case by simp
qed

definition markup_error :: "library \<Rightarrow> string \<Rightarrow> string option" where
  "markup_error L text = scan L 0 [] text"

subsection \<open>The texts the program prints\<close>

text \<open>\<open>f"{x}"\<close> for a value of the payload: a string is itself.\<close>

fun py_str :: "library \<Rightarrow> json \<Rightarrow> string" where
  "py_str L (JStr s) = s"
| "py_str L (JNum n) = str_int n"
| "py_str L JNull = ''None''"
| "py_str L (JBool b) = (if b then ''True'' else ''False'')"
| "py_str L v = py_repr L v"

definition name_text :: "library \<Rightarrow> string \<times> json \<Rightarrow> string" where
  "name_text L line = fst line @ ''. '' @ py_str L (snd line)"

fun option_text :: "library \<Rightarrow> option_line \<Rightarrow> string" where
  "option_text L (LabelLine idx name color) =
     idx @ ''. '' @ py_str L name @ '' ('' @ py_str L color @ '')''"
| "option_text L CreateNewLabelLine = ''0. Create a new label''"
| "option_text L FinishLine = ''F. Finish selecting labels''"

text \<open>The string handed to \<open>console.print\<close>, or put in the \<open>Panel\<close> handed to it, for each
  message of \<open>cli.py\<close>; the last three are printed by \<open>print\<close> and by rich itself.\<close>

fun markup_text :: "library \<Rightarrow> msg \<Rightarrow> string" where
  "markup_text L Blank = [CHR 0x0A]"
| "markup_text L NoBoardsFound = ''[bold red]No boards were found.[/bold red]''"
| "markup_text L (BoardPanel lines) = join_strs [CHR 0x0A] (map (name_text L) lines)"
| "markup_text L (SelectedBoard name) =
     ''[italic]Selected Board: '' @ py_str L name @ ''[/italic]'' @ [CHR 0x0A]"
| "markup_text L NoColumnsFound = ''[bold red]No columns found in this board.[/bold red]''"
| "markup_text L (ListPanel lines) = join_strs [CHR 0x0A] (map (name_text L) lines)"
| "markup_text L (SelectedColumn name) =
     ''[italic]Selected Column: '' @ py_str L name @ ''[/italic]'' @ [CHR 0x0A]"
| "markup_text L AddCardDetails = ''[bold]Add Card Details[/bold]''"
| "markup_text L TitleTooShort =
     ''[bold red]Card title must be at least '' @ str_nat MIN_CARD_TITLE_LENGTH @
     '' characters long.[/bold red]''"
| "markup_text L (LabelPanel options) = join_strs [CHR 0x0A] (map (option_text L) options)"
| "markup_text L (LabelSelected n) =
     [CHR 0x0A] @ ''[italic]'' @ str_nat n @ '' label(s) selected.[/italic]'' @ [CHR 0x0A]"
| "markup_text L (LabelsSelected n) =
     ''[italic]'' @ str_nat n @ '' label(s) selected.[/italic]'' @ [CHR 0x0A]"
| "markup_text L (InvalidSelection label_selection) = ''Invalid selection: '' @ label_selection"
| "markup_text L LabelNameEmpty = ''[bold red]Label name cannot be empty.[/bold red]''"
| "markup_text L (NewLabelCreated label_name) =
     [CHR 0x0A] @ ''[italic]New label '' @ [CHR 0x27] @ label_name @ [CHR 0x27] @
     '' created.[/italic]'' @ [CHR 0x0A]"
| "markup_text L NoLabelsSelected = ''[italic]No labels selected.[/italic]'' @ [CHR 0x0A]"
| "markup_text L CommentAdded =
     [CHR 0x0A] @ ''[italic]Comment added to the card.[/italic]'' @ [CHR 0x0A]"
| "markup_text L (CardAdded card_title) =
     ''[italic]Card '' @ [CHR 0x27] @ card_title @ [CHR 0x27] @
     '' was successfully added.[/italic]'' @ [CHR 0x0A]"
| "markup_text L HttpErrorOccurred =
     ''[bold red]HTTP error occurred. Please check your API key and token.[/bold red]''"
| "markup_text L (ErrorDetails http_err) = ''Error details: '' @ error_text http_err"
| "markup_text L (AnErrorOccurred err) =
     ''[bold red]An error occurred: '' @ error_text err @ ''[/bold red]''"
| "markup_text L MissingCredentials =
     ''Error: Ensure TRELLO_API_KEY and TRELLO_TOKEN are set in environment variables.''"
| "markup_text L InvalidChoice =
     ''[prompt.invalid.choice]Please select one of the available options''"
| "markup_text L InvalidYesNo = ''[prompt.invalid]Please enter Y or N''"

text \<open>
  \<open>console.print\<close>: the text is rendered first, so a print that raises \<open>MarkupError\<close>
  shows nothing.
\<close>

definition print_error :: "library \<Rightarrow> msg \<Rightarrow> error option" where
  "print_error L m = map_option MarkupError (markup_error L (markup_text L m))"

definition console_print :: "msg \<Rightarrow> unit io" where
  "console_print m w =
     (case print_error (lib w) m of
        Some err \<Rightarrow> (Inl err, w)
      | None \<Rightarrow> (Inr (), emit (Out m) w))"

subsection \<open>Texts that always render\<close>

lemma str_nat_digits: "set (str_nat n) \<subseteq> set ''0123456789''"
proof (induction n rule: str_nat.induct)
  case (1 n)
  have d: "''0123456789'' ! k \<in> set ''0123456789''" if "k < 10" for k
    using that by (intro nth_mem) simp
  show ?case
  proof (cases "n < 10")
    case True
    with d [of n] show ?thesis by (simp add: str_nat.simps [of n])
  next
    case False
    with "1.IH" have "set (str_nat (n div 10)) \<subseteq> set ''0123456789''" by simp
    moreover have "''0123456789'' ! (n mod 10) \<in> set ''0123456789''" by (rule d) simp
    ultimately show ?thesis using False by (simp add: str_nat.simps [of n])
  qed
qed


definition plain :: "char \<Rightarrow> bool" where
  "plain ch \<longleftrightarrow> ch \<noteq> CHR ''['' \<and> ch \<noteq> CHR 0x5C"

text \<open>The scan passes over text with no \<open>[\<close> and no backslash.\<close>

lemma scan_plain:
  "list_all plain t \<Longrightarrow> scan L position stack (t @ rest) = scan L (position + length t) stack rest"
proof (induction t arbitrary: position)
  case Nil
  show ?case by simp
next
  case (Cons ch t)
  from Cons.prems have t: "list_all plain t" and "plain ch" by simp_all
  then have "\<not> is_backslash ch" "ch \<noteq> CHR ''[''"
    by (simp_all add: plain_def is_backslash_def)
  with Cons.IH [OF t, of "position + 1"] show ?case by simp
qed

lemma plain_str_nat: "list_all plain (str_nat n)"
proof -
  have "\<forall>ch \<in> set (str_nat n). plain ch"
    using str_nat_digits [of n] by (auto simp: plain_def)
  then show ?thesis by (simp add: list_all_iff)
qed

lemma scan_str_nat:
  "scan L position stack (str_nat n @ rest) = scan L (position + length (str_nat n)) stack rest"
  by (rule scan_plain [OF plain_str_nat])

text \<open>A closing tag right after the text of its opening tag, which has no parameters.\<close>

lemma apply_tag_open:
  "CHR ''='' \<notin> set name \<Longrightarrow> take 1 name \<noteq> ''/'' \<Longrightarrow>
   apply_tag L position stack name = Inr ((style_normalize L name, None) # stack)"
proof -
  assume a: "CHR ''='' \<notin> set name" "take 1 name \<noteq> ''/''"
  from a(1) have tw: "takeWhile (\<lambda>ch. ch \<noteq> CHR ''='') name = name"
    by (auto simp: takeWhile_eq_all_conv)
  from a(1) have none: "(CHR ''='' \<in> set name) = False" by simp
  show ?thesis unfolding apply_tag_def Let_def tw none using a(2) by simp
qed

lemma apply_tag_close:
  "CHR ''='' \<notin> set name \<Longrightarrow> strip name = name \<Longrightarrow> name \<noteq> [] \<Longrightarrow>
   apply_tag L position ((style_normalize L name, None) # stack) (CHR ''/'' # name) = Inr stack"
proof -
  assume a: "CHR ''='' \<notin> set name" "strip name = name" "name \<noteq> []"
  from a(1) have tw: "takeWhile (\<lambda>ch. ch \<noteq> CHR ''='') (CHR ''/'' # name) = CHR ''/'' # name"
    by (auto simp: takeWhile_eq_all_conv)
  from a(1) have none: "(CHR ''='' \<in> set (CHR ''/'' # name)) = False" by simp
  show ?thesis unfolding apply_tag_def Let_def tw none using a(2) a(3)
    by (simp add: close_meta_def)
qed

lemma print_error_fixed [simp]:
  "print_error L Blank = None"
  "print_error L NoBoardsFound = None"
  "print_error L NoColumnsFound = None"
  "print_error L AddCardDetails = None"
  "print_error L TitleTooShort = None"
  "print_error L LabelNameEmpty = None"
  "print_error L NoLabelsSelected = None"
  "print_error L CommentAdded = None"
  "print_error L HttpErrorOccurred = None"
  "print_error L InvalidChoice = None"
  "print_error L InvalidYesNo = None"
  by (simp_all add: print_error_def markup_error_def take_tag_def tag_start_def in_tag_def
      is_backslash_def apply_tag_open apply_tag_close strip_def isspace_def
      MIN_CARD_TITLE_LENGTH_def str_nat.simps)

lemma print_error_count [simp]:
  "print_error L (LabelSelected n) = None"
  "print_error L (LabelsSelected n) = None"
  by (simp_all add: print_error_def markup_error_def take_tag_def tag_start_def in_tag_def
      is_backslash_def apply_tag_open apply_tag_close strip_def isspace_def scan_str_nat)

text \<open>So a print of one of these texts is the event it shows (the last two texts of the
  lemma above are those \<open>rich.prompt\<close> prints when it refuses an answer).\<close>

definition fixed_text :: "msg \<Rightarrow> bool" where
  "fixed_text m \<longleftrightarrow>
     m \<in> {Blank, NoBoardsFound, NoColumnsFound, AddCardDetails, TitleTooShort, LabelNameEmpty,
          NoLabelsSelected, CommentAdded, HttpErrorOccurred} \<or>
     (\<exists>n. m = LabelSelected n \<or> m = LabelsSelected n)"

lemma console_print_fixed: "fixed_text m \<Longrightarrow> console_print m w = (Inr (), emit (Out m) w)"
  by (auto simp: fixed_text_def console_print_def)

lemma console_print_cases:
  "console_print m w = (r, w') \<Longrightarrow>
   (\<exists>text. print_error (lib w) m = Some (MarkupError text) \<and> r = Inl (MarkupError text) \<and> w' = w) \<or>
   (print_error (lib w) m = None \<and> r = Inr () \<and> w' = emit (Out m) w)"
  by (auto simp: console_print_def print_error_def split: option.splits)


lemma console_print_stdin: "console_print m w = (r, w') \<Longrightarrow> stdin w' = stdin w"
  by (auto simp: console_print_def emit_def split: option.splits)

section \<open>The libraries the program calls\<close>

subsection \<open>requests\<close>

text \<open>
  \<open>requests.get(url, params=...)\<close> and \<open>requests.post(url, data=...)\<close>: the request is
  sent and the server's response returned. \<open>Response.raise_for_status()\<close> raises
  HTTPError when \<open>400 <= status_code < 600\<close> and does nothing otherwise;
  \<open>Response.json()\<close> raises when the body is not JSON.
\<close>

definition http_error_msg :: "response \<Rightarrow> string" where
  "http_error_msg r =
     str_nat (status_code r) @
     (if status_code r < 500 then '' Client Error: '' else '' Server Error: '') @
     reason r @ '' for url: '' @ url r"

definition requests_send :: "meth \<Rightarrow> string \<Rightarrow> endpoint \<Rightarrow> pydict \<Rightarrow> response io" where
  "requests_send m base ep d w =
     (case server w (trace w) m base ep d of
        Inl text \<Rightarrow> (Inl (ConnectionError text), emit (Http m base ep d) w)
      | Inr r \<Rightarrow> (Inr r, emit (Http m base ep d) w))"

definition raise_for_status :: "response \<Rightarrow> error + unit" where
  "raise_for_status r =
     (if 400 \<le> status_code r \<and> status_code r < 600
      then Inl (HTTPError (status_code r) (http_error_msg r))
      else Inr ())"

definition response_json :: "response \<Rightarrow> error + json" where
  "response_json r = (case json_body r of Inl text \<Rightarrow> Inl (JSONDecodeError text) | Inr j \<Rightarrow> Inr j)"

section \<open>api.py\<close>

text \<open>
  Importing the module reads the two credentials from the environment (after
  \<open>load_dotenv\<close>) and exits with status 1 when one is missing or empty; the functions
  of the module exist only past that point, so they take the credentials as argument.
\<close>

record creds =
  API_KEY :: string
  TOKEN :: string

definition falsy_env :: "string option \<Rightarrow> bool" where
  "falsy_env v = (case v of None \<Rightarrow> True | Some s \<Rightarrow> s = [])"

definition api_module :: "(string \<Rightarrow> string option) \<Rightarrow> world \<Rightarrow> (nat + creds) \<times> world" where
  "api_module getenv w =
     (let api_key = getenv ''TRELLO_API_KEY''; token = getenv ''TRELLO_TOKEN'' in
      if falsy_env api_key \<or> falsy_env token
      then (Inl 1, emit (Out MissingCredentials) w)
      else (Inr \<lparr>API_KEY = the api_key, TOKEN = the token\<rparr>, w))"

definition trello_get :: "creds \<Rightarrow> endpoint \<Rightarrow> pydict option \<Rightarrow> json io" where
  "trello_get c ep params =
     (let default_params = [(''key'', JStr (API_KEY c)), (''token'', JStr (TOKEN c))];
          default_params =
            (case params of
               None \<Rightarrow> default_params
             | Some p \<Rightarrow> if p \<noteq> [] then dict_update default_params p else default_params) in
      io_bind (requests_send GET TRELLO_API_BASE_URL ep default_params) (\<lambda>response.
      io_bind (io_lift (raise_for_status response)) (\<lambda>_.
      io_lift (response_json response))))"

definition trello_post :: "creds \<Rightarrow> endpoint \<Rightarrow> pydict option \<Rightarrow> json io" where
  "trello_post c ep data =
     (let default_data = [(''key'', JStr (API_KEY c)), (''token'', JStr (TOKEN c))];
          default_data =
            (case data of
               None \<Rightarrow> default_data
             | Some d \<Rightarrow> if d \<noteq> [] then dict_update default_data d else default_data) in
      io_bind (requests_send POST TRELLO_API_BASE_URL ep default_data) (\<lambda>response.
      io_bind (io_lift (raise_for_status response)) (\<lambda>_.
      io_lift (response_json response))))"

definition get_boards :: "creds \<Rightarrow> json io" where
  "get_boards c = trello_get c MembersMeBoards (Some [(''fields'', JStr ''name,id'')])"

definition get_lists :: "creds \<Rightarrow> json \<Rightarrow> json io" where
  "get_lists c board_id = trello_get c (BoardLists board_id) (Some [(''fields'', JStr ''name,id'')])"

definition get_labels :: "creds \<Rightarrow> json \<Rightarrow> json io" where
  "get_labels c board_id =
     trello_get c (BoardLabels board_id) (Some [(''fields'', JStr ''name,color,id'')])"

definition create_label :: "creds \<Rightarrow> json \<Rightarrow> string \<Rightarrow> json \<Rightarrow> json io" where
  "create_label c board_id name color =
     (let data = [(''name'', JStr name), (''color'', color), (''idBoard'', board_id)] in
      trello_post c Labels (Some data))"

definition create_card :: "creds \<Rightarrow> json \<Rightarrow> string \<Rightarrow> string \<Rightarrow> string \<Rightarrow> json io" where
  "create_card c list_id name desc label_ids =
     (let data = [(''idList'', list_id), (''name'', JStr name), (''desc'', JStr desc)];
          data = (if label_ids \<noteq> [] then AList.update ''idLabels'' (JStr label_ids) data else data) in
      trello_post c Cards (Some data))"

definition add_comment :: "creds \<Rightarrow> json \<Rightarrow> string \<Rightarrow> json io" where
  "add_comment c card_id text =
     (let data = [(''text'', JStr text)] in
      trello_post c (CardComments card_id) (Some data))"

section \<open>rich.prompt\<close>

text \<open>
  \<open>Prompt.ask(prompt, choices=..., default=...)\<close> shows the prompt and reads a line. An
  empty line returns the default when there is one. Otherwise the line is stripped; with
  \<open>choices\<close>, a value that is not one of them is refused with a message and the prompt is
  shown again. \<open>Confirm.ask(prompt, default=...)\<close> is the same loop for a yes/no answer:
  the stripped, lower-cased line must be \<open>y\<close> or \<open>n\<close>.
\<close>

function Prompt_ask :: "prompt \<Rightarrow> string list option \<Rightarrow> string option \<Rightarrow> string io" where
  "Prompt_ask p choices dflt w =
     (case stdin w of
        [] \<Rightarrow> (Inl EOFError, emit (Ask p) w)
      | line # rest \<Rightarrow>
          let w1 = (emit (Ask p) w)\<lparr>stdin := rest\<rparr> in
          if line = [] \<and> dflt \<noteq> None then (Inr (the dflt), w1)
          else if (case choices of None \<Rightarrow> True | Some cs \<Rightarrow> strip line \<in> set cs)
          then (Inr (strip line), w1)
          else Prompt_ask p choices dflt (emit (Out InvalidChoice) w1))"
  by pat_completeness auto
termination
  by (relation "measure (\<lambda>(p, choices, dflt, w). length (stdin w))") (auto simp: emit_def)

function Confirm_ask :: "prompt \<Rightarrow> bool \<Rightarrow> bool io" where
  "Confirm_ask p dflt w =
     (case stdin w of
        [] \<Rightarrow> (Inl EOFError, emit (Ask p) w)
      | line # rest \<Rightarrow>
          let w1 = (emit (Ask p) w)\<lparr>stdin := rest\<rparr> in
          if line = [] then (Inr dflt, w1)
          else if lower (strip line) \<in> set [''y'', ''n'']
          then (Inr (lower (strip line) = ''y''), w1)
          else Confirm_ask p dflt (emit (Out InvalidYesNo) w1))"
  by pat_completeness auto
termination
  by (relation "measure (\<lambda>(p, dflt, w). length (stdin w))") (auto simp: emit_def)

declare Prompt_ask.simps [simp del] Confirm_ask.simps [simp del]

lemma Prompt_ask_stdin:
  "Prompt_ask p choices dflt w = (Inr v, w') \<Longrightarrow> length (stdin w') < length (stdin w)"
proof (induction p choices dflt w rule: Prompt_ask.induct)
  case (1 p choices dflt w)
  show ?case
  proof (cases "stdin w")
    case Nil
    with "1.prems" show ?thesis by (simp add: Prompt_ask.simps)
  next
    case (Cons line rest)
    show ?thesis
    proof (cases "(line = [] \<and> dflt \<noteq> None) \<or> (case choices of None \<Rightarrow> True | Some cs \<Rightarrow> strip line \<in> set cs)")
      case True
      with "1.prems" Cons show ?thesis
        by (auto simp: Prompt_ask.simps [of p choices dflt w] emit_def Let_def split: if_splits)
    next
      case False
      with "1.prems" Cons
      have "Prompt_ask p choices dflt (emit (Out InvalidChoice) ((emit (Ask p) w)\<lparr>stdin := rest\<rparr>)) = (Inr v, w')"
        by (auto simp: Prompt_ask.simps [of p choices dflt w] Let_def split: if_splits)
      with "1.IH" [OF Cons refl] False have "length (stdin w') < length rest"
        by (auto simp: emit_def)
      with Cons show ?thesis by simp
    qed
  qed
qed


lemma Confirm_ask_stdin:
  "Confirm_ask p dflt w = (Inr v, w') \<Longrightarrow> length (stdin w') < length (stdin w)"
proof (induction p dflt w rule: Confirm_ask.induct)
  case (1 p dflt w)
  show ?case
  proof (cases "stdin w")
    case Nil
    with "1.prems" show ?thesis by (simp add: Confirm_ask.simps)
  next
    case (Cons line rest)
    show ?thesis
    proof (cases "line = [] \<or> lower (strip line) \<in> set [''y'', ''n'']")
      case True
      with "1.prems" Cons show ?thesis
        by (auto simp: Confirm_ask.simps [of p dflt w] emit_def Let_def split: if_splits)
    next
      case False
      with "1.prems" Cons
      have "Confirm_ask p dflt (emit (Out InvalidYesNo) ((emit (Ask p) w)\<lparr>stdin := rest\<rparr>)) = (Inr v, w')"
        by (auto simp: Confirm_ask.simps [of p dflt w] Let_def split: if_splits)
      with "1.IH" [OF Cons refl] False have "length (stdin w') < length rest"
        by (auto simp: emit_def)
      with Cons show ?thesis by simp
    qed
  qed
qed

section \<open>cli.py\<close>

text \<open>The dict \<open>{str(i): x for i, x in enumerate(xs, start=1)}\<close>, in insertion order.\<close>

definition enumerate1 :: "json list \<Rightarrow> pydict" where
  "enumerate1 xs = zip (map str_nat [1..<Suc (length xs)]) xs"

definition dict_get :: "pydict \<Rightarrow> string \<Rightarrow> error + json" where
  "dict_get d k = (case map_of d k of None \<Rightarrow> Inl (KeyError k) | Some v \<Rightarrow> Inr v)"

text \<open>A list comprehension whose items may raise: the first failure is the result.\<close>

fun map_err :: "('a \<Rightarrow> error + 'b) \<Rightarrow> 'a list \<Rightarrow> error + 'b list" where
  "map_err f [] = Inr []"
| "map_err f (x # xs) =
     (case f x of
        Inl e \<Rightarrow> Inl e
      | Inr y \<Rightarrow> (case map_err f xs of Inl e \<Rightarrow> Inl e | Inr ys \<Rightarrow> Inr (y # ys)))"

text \<open>The lines \<open>f"{idx}. {board['name']}"\<close> of the board and column panels.\<close>

definition name_line :: "string \<times> json \<Rightarrow> error + string \<times> json" where
  "name_line kv = (case getitem (snd kv) ''name'' of Inl e \<Rightarrow> Inl e | Inr n \<Rightarrow> Inr (fst kv, n))"

definition select_board :: "creds \<Rightarrow> json io" where
  "select_board c =
     io_bind (get_boards c) (\<lambda>boards.
     if \<not> truthy boards then
       io_bind (console_print NoBoardsFound) (\<lambda>_. io_lift (Inr JNull))
     else
       io_bind (io_lift (py_iter boards)) (\<lambda>items.
       let board_choices = enumerate1 items in
       io_bind (io_lift (map_err name_line board_choices)) (\<lambda>lines.
       io_bind (console_print (BoardPanel lines)) (\<lambda>_.
       io_bind (Prompt_ask SelectBoard (Some (map fst board_choices)) None) (\<lambda>board_selection.
       io_bind (io_lift (dict_get board_choices board_selection)) (\<lambda>selected_board.
       io_bind (io_lift (getitem selected_board ''name'')) (\<lambda>name.
       io_bind (console_print (SelectedBoard name)) (\<lambda>_.
       io_lift (getitem selected_board ''id'')))))))))"

definition select_list :: "creds \<Rightarrow> json \<Rightarrow> json io" where
  "select_list c board_id =
     io_bind (get_lists c board_id) (\<lambda>lists.
     if \<not> truthy lists then
       io_bind (console_print NoColumnsFound) (\<lambda>_. io_lift (Inr JNull))
     else
       io_bind (io_lift (py_iter lists)) (\<lambda>items.
       let list_choices = enumerate1 items in
       io_bind (io_lift (map_err name_line list_choices)) (\<lambda>lines.
       io_bind (console_print (ListPanel lines)) (\<lambda>_.
       io_bind (Prompt_ask SelectColumn (Some (map fst list_choices)) None) (\<lambda>list_selection.
       io_bind (io_lift (dict_get list_choices list_selection)) (\<lambda>selected_list.
       io_bind (io_lift (getitem selected_list ''name'')) (\<lambda>name.
       io_bind (console_print (SelectedColumn name)) (\<lambda>_.
       io_lift (getitem selected_list ''id'')))))))))"

text \<open>The \<open>while\<close> loop of \<open>get_card_details\<close>, entered with the title read so far.\<close>

function title_loop :: "string \<Rightarrow> string io" where
  "title_loop card_title w =
     (if length (strip card_title) < MIN_CARD_TITLE_LENGTH then
        (case console_print TitleTooShort w of
           (Inl e, w0) \<Rightarrow> (Inl e, w0)
         | (Inr _, w0) \<Rightarrow>
             (case Prompt_ask EnterCardTitle None None w0 of
                (Inl e, w') \<Rightarrow> (Inl e, w')
              | (Inr card_title', w') \<Rightarrow> title_loop card_title' w'))
      else (Inr card_title, w))"
  by pat_completeness auto
termination
  by (relation "measure (\<lambda>(card_title, w). length (stdin w))")
     (auto dest!: Prompt_ask_stdin [OF sym] console_print_stdin [OF sym])

declare title_loop.simps [simp del]

text \<open>The message of the loop is a fixed text, so the loop is:\<close>

lemma title_loop_unfold:
  "title_loop card_title w =
     (if length (strip card_title) < MIN_CARD_TITLE_LENGTH then
        (case Prompt_ask EnterCardTitle None None (emit (Out TitleTooShort) w) of
           (Inl e, w') \<Rightarrow> (Inl e, w')
         | (Inr card_title', w') \<Rightarrow> title_loop card_title' w')
      else (Inr card_title, w))"
  by (simp add: title_loop.simps [of card_title w] console_print_fixed fixed_text_def)

lemma title_loop_induct:
  assumes "\<And>card_title w.
             (\<And>card_title' w'.
                 length (strip card_title) < MIN_CARD_TITLE_LENGTH \<Longrightarrow>
                 (Inr card_title', w') = Prompt_ask EnterCardTitle None None (emit (Out TitleTooShort) w) \<Longrightarrow>
                 P card_title' w') \<Longrightarrow>
             P card_title w"
  shows "P card_title w"
proof (induction card_title w rule: title_loop.induct)
  case (1 card_title w)
  show ?case
  proof (rule assms)
    fix card_title' w'
    assume "length (strip card_title) < MIN_CARD_TITLE_LENGTH"
      and "(Inr card_title', w') = Prompt_ask EnterCardTitle None None (emit (Out TitleTooShort) w)"
    moreover have "(Inr (), emit (Out TitleTooShort) w) = console_print TitleTooShort w"
      by (simp add: console_print_fixed fixed_text_def)
    ultimately show "P card_title' w'"
      by (intro "1.IH" [OF _ _ refl _ refl])
  qed
qed

definition get_card_details :: "(string \<times> string) io" where
  "get_card_details =
     io_bind (console_print AddCardDetails) (\<lambda>_.
     io_bind (Prompt_ask EnterCardTitle None None) (\<lambda>card_title.
     io_bind (title_loop card_title) (\<lambda>card_title.
     io_bind (Prompt_ask EnterCardDescription None (Some [])) (\<lambda>card_desc.
     io_lift (Inr (card_title, card_desc))))))"

text \<open>One line of the label panel: \<open>label['name'] if label['name'] else 'No Name'\<close>,
  the same for the colour.\<close>

definition label_line :: "string \<times> json \<Rightarrow> error + option_line" where
  "label_line kv =
     (case getitem (snd kv) ''name'' of
        Inl e \<Rightarrow> Inl e
      | Inr n \<Rightarrow>
          let name = (if truthy n then n else JStr ''No Name'') in
          (case getitem (snd kv) ''color'' of
             Inl e \<Rightarrow> Inl e
           | Inr col \<Rightarrow>
               let color = (if truthy col then col else JStr ''No Color'') in
               Inr (LabelLine (fst kv) name color)))"

definition create_label_options :: "pydict \<Rightarrow> error + option_line list" where
  "create_label_options label_choices =
     (case map_err label_line label_choices of
        Inl e \<Rightarrow> Inl e
      | Inr options \<Rightarrow> Inr (options @ [CreateNewLabelLine, FinishLine]))"

text \<open>The \<open>while\<close> loop of \<open>create_new_label\<close>.\<close>

function name_loop :: "string \<Rightarrow> string io" where
  "name_loop label_name w =
     (if strip label_name = [] then
        (case console_print LabelNameEmpty w of
           (Inl e, w0) \<Rightarrow> (Inl e, w0)
         | (Inr _, w0) \<Rightarrow>
             (case Prompt_ask EnterLabelName None None w0 of
                (Inl e, w') \<Rightarrow> (Inl e, w')
              | (Inr label_name', w') \<Rightarrow> name_loop label_name' w'))
      else (Inr label_name, w))"
  by pat_completeness auto
termination
  by (relation "measure (\<lambda>(label_name, w). length (stdin w))")
     (auto dest!: Prompt_ask_stdin [OF sym] console_print_stdin [OF sym])

declare name_loop.simps [simp del]

lemma name_loop_unfold:
  "name_loop label_name w =
     (if strip label_name = [] then
        (case Prompt_ask EnterLabelName None None (emit (Out LabelNameEmpty) w) of
           (Inl e, w') \<Rightarrow> (Inl e, w')
         | (Inr label_name', w') \<Rightarrow> name_loop label_name' w')
      else (Inr label_name, w))"
  by (simp add: name_loop.simps [of label_name w] console_print_fixed fixed_text_def)

lemma name_loop_induct:
  assumes "\<And>label_name w.
             (\<And>label_name' w'.
                 strip label_name = [] \<Longrightarrow>
                 (Inr label_name', w') = Prompt_ask EnterLabelName None None (emit (Out LabelNameEmpty) w) \<Longrightarrow>
                 P label_name' w') \<Longrightarrow>
             P label_name w"
  shows "P label_name w"
proof (induction label_name w rule: name_loop.induct)
  case (1 label_name w)
  show ?case
  proof (rule assms)
    fix label_name' w'
    assume "strip label_name = []"
      and "(Inr label_name', w') = Prompt_ask EnterLabelName None None (emit (Out LabelNameEmpty) w)"
    moreover have "(Inr (), emit (Out LabelNameEmpty) w) = console_print LabelNameEmpty w"
      by (simp add: console_print_fixed fixed_text_def)
    ultimately show "P label_name' w'"
      by (intro "1.IH" [OF _ _ refl _ refl])
  qed
qed

text \<open>The colour prompt of \<open>create_new_label\<close>: \<open>choices=VALID_COLORS, default='blue'\<close>.\<close>

definition ask_label_color :: "string io" where
  "ask_label_color = Prompt_ask EnterLabelColor (Some VALID_COLORS) (Some ''blue'')"

definition create_new_label :: "creds \<Rightarrow> json \<Rightarrow> json io" where
  "create_new_label c board_id =
     io_bind (Prompt_ask EnterLabelName None None) (\<lambda>label_name.
     io_bind (name_loop label_name) (\<lambda>label_name.
     io_bind ask_label_color (\<lambda>label_color.
     io_bind (create_label c board_id label_name
                (if label_color = ''null'' then JNull else JStr label_color)) (\<lambda>new_label.
     io_bind (console_print (NewLabelCreated label_name)) (\<lambda>_.
     io_lift (Inr new_label))))))"


subsection \<open>What every step leaves alone\<close>

lemma stdin_emit [simp]: "stdin (emit e w) = stdin w"
  by (simp add: emit_def)

lemma server_emit [simp]: "server (emit e w) = server w"
  by (simp add: emit_def)

lemma trace_emit [simp]: "trace (emit e w) = trace w @ [e]"
  by (simp add: emit_def)

lemma lib_emit [simp]: "lib (emit e w) = lib w"
  by (simp add: emit_def)

text \<open>No step changes the server or the libraries, puts a line back or erases what was
  observed.\<close>

definition later :: "world \<Rightarrow> world \<Rightarrow> bool" where
  "later w w' \<longleftrightarrow>
     server w' = server w \<and> lib w' = lib w \<and>
     suffix (stdin w') (stdin w) \<and> prefix (trace w) (trace w')"

definition frame :: "'a io \<Rightarrow> bool" where
  "frame m \<longleftrightarrow> (\<forall>w r w'. m w = (r, w') \<longrightarrow> later w w')"

lemma later_refl [simp]: "later w w"
  by (simp add: later_def)

lemma later_trans: "later w w1 \<Longrightarrow> later w1 w2 \<Longrightarrow> later w w2"
  unfolding later_def by (metis prefix_order.trans suffix_order.trans)

lemma later_emit [simp]: "later w (emit e w)"
  by (simp add: later_def)

lemma later_emit_left: "later (emit e w) w' \<Longrightarrow> later w w'"
  by (rule later_trans [OF later_emit])

lemma later_read: "stdin w = line # rest \<Longrightarrow> later w (w\<lparr>stdin := rest\<rparr>)"
  by (simp add: later_def suffix_Cons)

lemma later_stdin: "later w w' \<Longrightarrow> length (stdin w') \<le> length (stdin w)"
  by (simp add: later_def suffix_length_le)

lemma later_trace: "later w w' \<Longrightarrow> \<exists>evs. trace w' = trace w @ evs"
  by (auto simp: later_def prefix_def)

lemma later_server: "later w w' \<Longrightarrow> server w' = server w"
  by (simp add: later_def)

lemma later_lib: "later w w' \<Longrightarrow> lib w' = lib w"
  by (simp add: later_def)

lemma frameD: "frame m \<Longrightarrow> m w = (r, w') \<Longrightarrow> later w w'"
  by (simp add: frame_def)

lemma frame_lift [intro!, simp]: "frame (io_lift r)"
  by (simp add: frame_def io_lift_def)

lemma frame_console_print [intro!, simp]: "frame (console_print m)"
  by (auto simp: frame_def console_print_def split: option.splits)

lemma frame_bind [intro!]:
  assumes "frame m" "\<And>x. frame (f x)"
  shows "frame (io_bind m f)"
  unfolding frame_def
proof (intro allI impI)
  fix w r w'
  assume run: "io_bind m f w = (r, w')"
  obtain r1 w1 where m: "m w = (r1, w1)" by (cases "m w")
  from assms(1) m have f1: "later w w1" by (rule frameD)
  show "later w w'"
  proof (cases r1)
    case (Inl e)
    with run m have "w' = w1" by (simp add: io_bind_def)
    with f1 show ?thesis by simp
  next
    case (Inr x)
    with run m have "f x w1 = (r, w')" by (simp add: io_bind_def)
    with assms(2) [of x] have "later w1 w'" by (rule frameD)
    with f1 show ?thesis by (rule later_trans)
  qed
qed

lemma frame_if [intro!]: "frame a \<Longrightarrow> frame b \<Longrightarrow> frame (if c then a else b)"
  by simp

lemma frame_requests_send [intro!, simp]: "frame (requests_send m base ep d)"
  by (auto simp: frame_def requests_send_def split: sum.splits)

lemma frame_trello_get [intro!, simp]: "frame (trello_get c ep params)"
  unfolding trello_get_def Let_def by (intro frame_bind frame_requests_send frame_lift)

lemma frame_trello_post [intro!, simp]: "frame (trello_post c ep data)"
  unfolding trello_post_def Let_def by (intro frame_bind frame_requests_send frame_lift)

lemma frame_Prompt_ask [intro!, simp]: "frame (Prompt_ask p choices dflt)"
proof -
  have "later w w'" if "Prompt_ask p choices dflt w = (r, w')" for w r w'
    using that
  proof (induction p choices dflt w rule: Prompt_ask.induct)
    case (1 p choices dflt w)
    show ?case
    proof (cases "stdin w")
      case Nil
      with "1.prems" show ?thesis by (auto simp: Prompt_ask.simps [of p choices dflt w])
    next
      case (Cons line rest)
      have step: "later w ((emit (Ask p) w)\<lparr>stdin := rest\<rparr>)"
        by (rule later_trans [OF later_emit later_read]) (simp add: Cons)
      show ?thesis
      proof (cases "(line = [] \<and> dflt \<noteq> None) \<or> (case choices of None \<Rightarrow> True | Some cs \<Rightarrow> strip line \<in> set cs)")
        case True
        with "1.prems" Cons step show ?thesis
          by (auto simp: Prompt_ask.simps [of p choices dflt w] Let_def split: if_splits)
      next
        case False
        with "1.prems" Cons
        have "Prompt_ask p choices dflt (emit (Out InvalidChoice) ((emit (Ask p) w)\<lparr>stdin := rest\<rparr>)) = (r, w')"
          by (auto simp: Prompt_ask.simps [of p choices dflt w] Let_def split: if_splits)
        with "1.IH" [OF Cons refl] False
        have "later (emit (Out InvalidChoice) ((emit (Ask p) w)\<lparr>stdin := rest\<rparr>)) w'"
          by auto
        then show ?thesis using step by (blast intro: later_trans later_emit_left)
      qed
    qed
  qed
  then show ?thesis unfolding frame_def by blast
qed

lemma frame_Confirm_ask [intro!, simp]: "frame (Confirm_ask p dflt)"
proof -
  have "later w w'" if "Confirm_ask p dflt w = (r, w')" for w r w'
    using that
  proof (induction p dflt w rule: Confirm_ask.induct)
    case (1 p dflt w)
    show ?case
    proof (cases "stdin w")
      case Nil
      with "1.prems" show ?thesis by (auto simp: Confirm_ask.simps [of p dflt w])
    next
      case (Cons line rest)
      have step: "later w ((emit (Ask p) w)\<lparr>stdin := rest\<rparr>)"
        by (rule later_trans [OF later_emit later_read]) (simp add: Cons)
      show ?thesis
      proof (cases "line = [] \<or> lower (strip line) \<in> set [''y'', ''n'']")
        case True
        with "1.prems" Cons step show ?thesis
          by (auto simp: Confirm_ask.simps [of p dflt w] Let_def split: if_splits)
      next
        case False
        with "1.prems" Cons
        have "Confirm_ask p dflt (emit (Out InvalidYesNo) ((emit (Ask p) w)\<lparr>stdin := rest\<rparr>)) = (r, w')"
          by (auto simp: Confirm_ask.simps [of p dflt w] Let_def split: if_splits)
        with "1.IH" [OF Cons refl] False
        have "later (emit (Out InvalidYesNo) ((emit (Ask p) w)\<lparr>stdin := rest\<rparr>)) w'"
          by auto
        then show ?thesis using step by (blast intro: later_trans later_emit_left)
      qed
    qed
  qed
  then show ?thesis unfolding frame_def by blast
qed

lemma frame_title_loop [intro!, simp]: "frame (title_loop card_title)"
proof -
  have "later w w'" if "title_loop card_title w = (r, w')" for w r w'
    using that
  proof (induction card_title w rule: title_loop_induct)
    case (1 card_title w)
    show ?case
    proof (cases "length (strip card_title) < MIN_CARD_TITLE_LENGTH")
      case False
      with "1.prems" show ?thesis by (simp add: title_loop_unfold [of card_title w])
    next
      case True
      obtain r1 w1 where p: "Prompt_ask EnterCardTitle None None (emit (Out TitleTooShort) w) = (r1, w1)"
        by (cases "Prompt_ask EnterCardTitle None None (emit (Out TitleTooShort) w)")
      have f1: "later w w1"
        by (rule later_emit_left [OF frameD [OF frame_Prompt_ask p]])
      show ?thesis
      proof (cases r1)
        case (Inl e)
        with "1.prems" True p have "w' = w1" by (simp add: title_loop_unfold [of card_title w])
        with f1 show ?thesis by simp
      next
        case (Inr t)
        with "1.prems" True p have "title_loop t w1 = (r, w')"
          by (simp add: title_loop_unfold [of card_title w])
        with "1.IH" [OF True p [unfolded Inr, symmetric]] have "later w1 w'" by auto
        with f1 show ?thesis by (rule later_trans)
      qed
    qed
  qed
  then show ?thesis unfolding frame_def by blast
qed

lemma frame_name_loop [intro!, simp]: "frame (name_loop label_name)"
proof -
  have "later w w'" if "name_loop label_name w = (r, w')" for w r w'
    using that
  proof (induction label_name w rule: name_loop_induct)
    case (1 label_name w)
    show ?case
    proof (cases "strip label_name = []")
      case False
      with "1.prems" show ?thesis by (simp add: name_loop_unfold [of label_name w])
    next
      case True
      obtain r1 w1 where p: "Prompt_ask EnterLabelName None None (emit (Out LabelNameEmpty) w) = (r1, w1)"
        by (cases "Prompt_ask EnterLabelName None None (emit (Out LabelNameEmpty) w)")
      have f1: "later w w1"
        by (rule later_emit_left [OF frameD [OF frame_Prompt_ask p]])
      show ?thesis
      proof (cases r1)
        case (Inl e)
        with "1.prems" True p have "w' = w1" by (simp add: name_loop_unfold [of label_name w])
        with f1 show ?thesis by simp
      next
        case (Inr t)
        with "1.prems" True p have "name_loop t w1 = (r, w')"
          by (simp add: name_loop_unfold [of label_name w])
        with "1.IH" [OF True p [unfolded Inr, symmetric]] have "later w1 w'" by auto
        with f1 show ?thesis by (rule later_trans)
      qed
    qed
  qed
  then show ?thesis unfolding frame_def by blast
qed

lemma frame_create_new_label [intro!, simp]: "frame (create_new_label c board_id)"
  unfolding create_new_label_def create_label_def ask_label_color_def Let_def
  by (intro frame_bind frame_Prompt_ask frame_name_loop frame_trello_post frame_console_print frame_lift)

lemma create_new_label_stdin:
  "create_new_label c board_id w = (r, w') \<Longrightarrow> length (stdin w') \<le> length (stdin w)"
  by (rule later_stdin [OF frameD [OF frame_create_new_label]])

subsection \<open>Label selection and the top-level loop\<close>

text \<open>The \<open>while True\<close> loop of \<open>select_labels\<close>, with its two variables.\<close>

function select_labels_loop :: "creds \<Rightarrow> json \<Rightarrow> pydict \<Rightarrow> json list \<Rightarrow> json list io" where
  "select_labels_loop c board_id label_choices selected_label_ids w =
     (case console_print Blank w of
        (Inl e, w0) \<Rightarrow> (Inl e, w0)
      | (Inr _, w0) \<Rightarrow>
          (case create_label_options label_choices of
             Inl e \<Rightarrow> (Inl e, w0)
           | Inr label_options \<Rightarrow>
               (case console_print (LabelPanel label_options) w0 of
                  (Inl e, wp) \<Rightarrow> (Inl e, wp)
                | (Inr _, wp) \<Rightarrow>
                    (case Prompt_ask SelectLabel None (Some ''F'') wp of
                       (Inl e, w1) \<Rightarrow> (Inl e, w1)
                     | (Inr label_selection, w1) \<Rightarrow>
                         if upper label_selection = ''F'' then (Inr selected_label_ids, w1)
                         else if label_selection = ''0'' then
                           (case create_new_label c board_id w1 of
                              (Inl e, w2) \<Rightarrow> (Inl e, w2)
                            | (Inr new_label, w2) \<Rightarrow>
                                (case getitem new_label ''id'' of
                                   Inl e \<Rightarrow> (Inl e, w2)
                                 | Inr new_id \<Rightarrow>
                                     select_labels_loop c board_id
                                       (AList.update (str_nat (length label_choices + 1)) new_label
                                          label_choices)
                                       (selected_label_ids @ [new_id]) w2))
                         else
                           (case map_of label_choices label_selection of
                              Some label \<Rightarrow>
                                (case getitem label ''id'' of
                                   Inl e \<Rightarrow> (Inl e, w1)
                                 | Inr label_id \<Rightarrow>
                                     (case console_print
                                             (LabelSelected (length (selected_label_ids @ [label_id])))
                                             w1 of
                                        (Inl e, w2) \<Rightarrow> (Inl e, w2)
                                      | (Inr _, w2) \<Rightarrow>
                                          select_labels_loop c board_id label_choices
                                            (selected_label_ids @ [label_id]) w2))
                            | None \<Rightarrow>
                                (case console_print (InvalidSelection label_selection) w1 of
                                   (Inl e, w2) \<Rightarrow> (Inl e, w2)
                                 | (Inr _, w2) \<Rightarrow>
                                     select_labels_loop c board_id label_choices
                                       selected_label_ids w2))))))"
  by pat_completeness auto
termination
proof (relation "measure (\<lambda>(c, board_id, label_choices, selected_label_ids, w). length (stdin w))",
    goal_cases)
  case 1
  show ?case by simp
next
  case 2
  then show ?case
    by (auto dest!: Prompt_ask_stdin [OF sym] create_new_label_stdin [OF sym]
        console_print_stdin [OF sym])
next
  case 3
  then show ?case
    by (auto dest!: Prompt_ask_stdin [OF sym] console_print_stdin [OF sym])
next
  case 4
  then show ?case
    by (auto dest!: Prompt_ask_stdin [OF sym] console_print_stdin [OF sym])
qed

declare select_labels_loop.simps [simp del]

text \<open>
  The same loop with its prints spelled out: the blank line and the count are fixed
  texts; the panel and the answer that is refused are rendered from payload and input.
\<close>

lemma select_labels_loop_unfold:
  "select_labels_loop c board_id label_choices selected_label_ids w =
     (case create_label_options label_choices of
        Inl e \<Rightarrow> (Inl e, emit (Out Blank) w)
      | Inr label_options \<Rightarrow>
          (case print_error (lib w) (LabelPanel label_options) of
             Some err \<Rightarrow> (Inl err, emit (Out Blank) w)
           | None \<Rightarrow>
               (case Prompt_ask SelectLabel None (Some ''F'')
                       (emit (Out (LabelPanel label_options)) (emit (Out Blank) w)) of
                  (Inl e, w1) \<Rightarrow> (Inl e, w1)
                | (Inr label_selection, w1) \<Rightarrow>
                    if upper label_selection = ''F'' then (Inr selected_label_ids, w1)
                    else if label_selection = ''0'' then
                      (case create_new_label c board_id w1 of
                         (Inl e, w2) \<Rightarrow> (Inl e, w2)
                       | (Inr new_label, w2) \<Rightarrow>
                           (case getitem new_label ''id'' of
                              Inl e \<Rightarrow> (Inl e, w2)
                            | Inr new_id \<Rightarrow>
                                select_labels_loop c board_id
                                  (AList.update (str_nat (length label_choices + 1)) new_label
                                     label_choices)
                                  (selected_label_ids @ [new_id]) w2))
                    else
                      (case map_of label_choices label_selection of
                         Some label \<Rightarrow>
                           (case getitem label ''id'' of
                              Inl e \<Rightarrow> (Inl e, w1)
                            | Inr label_id \<Rightarrow>
                                select_labels_loop c board_id label_choices
                                  (selected_label_ids @ [label_id])
                                  (emit (Out (LabelSelected (length (selected_label_ids @ [label_id])))) w1))
                       | None \<Rightarrow>
                           (case print_error (lib w1) (InvalidSelection label_selection) of
                              Some err \<Rightarrow> (Inl err, w1)
                            | None \<Rightarrow>
                                select_labels_loop c board_id label_choices selected_label_ids
                                  (emit (Out (InvalidSelection label_selection)) w1))))))"
  by (simp add: select_labels_loop.simps [of c board_id label_choices selected_label_ids w]
      console_print_fixed fixed_text_def console_print_def
      split: sum.splits option.splits prod.splits)

lemma select_labels_loop_induct:
  assumes step: "\<And>label_choices selected_label_ids w.
     (\<And>label_options label_selection w1 new_label w2 new_id.
         create_label_options label_choices = Inr label_options \<Longrightarrow>
         print_error (lib w) (LabelPanel label_options) = None \<Longrightarrow>
         Prompt_ask SelectLabel None (Some ''F'')
           (emit (Out (LabelPanel label_options)) (emit (Out Blank) w)) = (Inr label_selection, w1) \<Longrightarrow>
         upper label_selection \<noteq> ''F'' \<Longrightarrow> label_selection = ''0'' \<Longrightarrow>
         create_new_label c board_id w1 = (Inr new_label, w2) \<Longrightarrow>
         getitem new_label ''id'' = Inr new_id \<Longrightarrow>
         P (AList.update (str_nat (length label_choices + 1)) new_label label_choices)
           (selected_label_ids @ [new_id]) w2) \<Longrightarrow>
     (\<And>label_options label_selection w1 label label_id.
         create_label_options label_choices = Inr label_options \<Longrightarrow>
         print_error (lib w) (LabelPanel label_options) = None \<Longrightarrow>
         Prompt_ask SelectLabel None (Some ''F'')
           (emit (Out (LabelPanel label_options)) (emit (Out Blank) w)) = (Inr label_selection, w1) \<Longrightarrow>
         upper label_selection \<noteq> ''F'' \<Longrightarrow> label_selection \<noteq> ''0'' \<Longrightarrow>
         map_of label_choices label_selection = Some label \<Longrightarrow>
         getitem label ''id'' = Inr label_id \<Longrightarrow>
         P label_choices (selected_label_ids @ [label_id])
           (emit (Out (LabelSelected (length (selected_label_ids @ [label_id])))) w1)) \<Longrightarrow>
     (\<And>label_options label_selection w1.
         create_label_options label_choices = Inr label_options \<Longrightarrow>
         print_error (lib w) (LabelPanel label_options) = None \<Longrightarrow>
         Prompt_ask SelectLabel None (Some ''F'')
           (emit (Out (LabelPanel label_options)) (emit (Out Blank) w)) = (Inr label_selection, w1) \<Longrightarrow>
         upper label_selection \<noteq> ''F'' \<Longrightarrow> label_selection \<noteq> ''0'' \<Longrightarrow>
         map_of label_choices label_selection = None \<Longrightarrow>
         print_error (lib w1) (InvalidSelection label_selection) = None \<Longrightarrow>
         P label_choices selected_label_ids (emit (Out (InvalidSelection label_selection)) w1)) \<Longrightarrow>
     P label_choices selected_label_ids w"
  shows "P label_choices selected_label_ids w"
proof -
  have "P label_choices selected_label_ids w" if "c' = c" "board_id' = board_id" for c' board_id'
    using that
  proof (induction c' board_id' label_choices selected_label_ids w rule: select_labels_loop.induct)
    case (1 c' board_id' label_choices selected_label_ids w)
    note IH = "1.IH" [unfolded "1.prems"(1) "1.prems"(2)]
    have blank: "(Inr (), emit (Out Blank) w) = console_print Blank w"
      by (simp add: console_print_fixed fixed_text_def)
    show ?case
    proof (rule step, goal_cases)
      case (1 label_options label_selection w1 new_label w2 new_id)
      from 1(2) have panel: "(Inr (), emit (Out (LabelPanel label_options)) (emit (Out Blank) w)) =
          console_print (LabelPanel label_options) (emit (Out Blank) w)"
        by (simp add: console_print_def)
      show ?case
        by (rule IH(1) [OF blank refl 1(1) panel refl 1(3) [symmetric] refl 1(4) 1(5)
              1(6) [symmetric] refl 1(7) refl refl])
    next
      case (2 label_options label_selection w1 label label_id)
      from 2(2) have panel: "(Inr (), emit (Out (LabelPanel label_options)) (emit (Out Blank) w)) =
          console_print (LabelPanel label_options) (emit (Out Blank) w)"
        by (simp add: console_print_def)
      have count: "(Inr (), emit (Out (LabelSelected (length (selected_label_ids @ [label_id])))) w1) =
          console_print (LabelSelected (length (selected_label_ids @ [label_id]))) w1"
        by (simp add: console_print_fixed fixed_text_def)
      show ?case
        by (rule IH(3) [OF blank refl 2(1) panel refl 2(3) [symmetric] refl 2(4) 2(5)
              2(6) 2(7) count refl refl refl])
    next
      case (3 label_options label_selection w1)
      from 3(2) have panel: "(Inr (), emit (Out (LabelPanel label_options)) (emit (Out Blank) w)) =
          console_print (LabelPanel label_options) (emit (Out Blank) w)"
        by (simp add: console_print_def)
      from 3(7) have refused: "(Inr (), emit (Out (InvalidSelection label_selection)) w1) =
          console_print (InvalidSelection label_selection) w1"
        by (simp add: console_print_def)
      show ?case
        by (rule IH(2) [OF blank refl 3(1) panel refl 3(3) [symmetric] refl 3(4) 3(5)
              3(6) refused refl refl refl])
    qed
  qed
  then show ?thesis by simp
qed

definition select_labels :: "creds \<Rightarrow> json \<Rightarrow> json list io" where
  "select_labels c board_id =
     io_bind (get_labels c board_id) (\<lambda>labels.
     io_bind (io_lift (py_iter labels)) (\<lambda>items.
     select_labels_loop c board_id (enumerate1 items) []))"

text \<open>
  One pass through the body of the \<open>while True\<close> loop of \<open>add_card\<close>, up to the point
  where it leaves the \<open>try\<close> block: by \<open>break\<close>, by \<open>continue\<close> or the end of the body,
  or by an exception.
\<close>

datatype flow = Break | Continue

definition add_card_body :: "creds \<Rightarrow> flow io" where
  "add_card_body c =
     io_bind (console_print Blank) (\<lambda>_.
     io_bind (select_board c) (\<lambda>board_id.
     if \<not> truthy board_id then
       io_bind (Confirm_ask NoBoardTryAgain True) (\<lambda>again.
       io_lift (Inr (if \<not> again then Break else Continue)))
     else
       io_bind (select_list c board_id) (\<lambda>list_id.
       if \<not> truthy list_id then
         io_bind (Confirm_ask NoListTryAgain True) (\<lambda>again.
         io_lift (Inr (if \<not> again then Break else Continue)))
       else
         io_bind get_card_details (\<lambda>details.
         let card_title = fst details; card_desc = snd details in
         io_bind (select_labels c board_id) (\<lambda>selected_label_ids.
         io_bind (console_print (if selected_label_ids = [] then NoLabelsSelected
                                 else LabelsSelected (length selected_label_ids))) (\<lambda>_.
         io_bind (io_lift (str_join '','' selected_label_ids)) (\<lambda>label_ids.
         io_bind (create_card c list_id card_title card_desc label_ids) (\<lambda>card.
         io_bind (Confirm_ask AddCommentOption False) (\<lambda>add_comment_option.
         io_bind (if add_comment_option then
                    io_bind (Prompt_ask EnterComment None None) (\<lambda>comment_text.
                    io_bind (io_lift (getitem card ''id'')) (\<lambda>card_id.
                    io_bind (add_comment c card_id comment_text) (\<lambda>_.
                    console_print CommentAdded)))
                  else io_lift (Inr ())) (\<lambda>_.
         io_bind (console_print (CardAdded card_title)) (\<lambda>_.
         io_bind (Confirm_ask AddAnotherCard False) (\<lambda>another.
         io_lift (Inr (if \<not> another then Break else Continue))))))))))))))"

text \<open>The two \<open>except\<close> clauses: what is printed for the exception caught.\<close>

definition report_error :: "error \<Rightarrow> unit io" where
  "report_error err =
     (case err of
        HTTPError status text \<Rightarrow>
          io_bind (console_print HttpErrorOccurred) (\<lambda>_. console_print (ErrorDetails err))
      | _ \<Rightarrow> console_print (AnErrorOccurred err))"

lemma frame_select_labels_loop [intro!, simp]:
  "frame (select_labels_loop c board_id label_choices selected_label_ids)"
proof -
  have "later w w'"
    if "select_labels_loop c board_id label_choices selected_label_ids w = (r, w')" for w r w'
    using that
  proof (induction label_choices selected_label_ids w
      rule: select_labels_loop_induct [where c = c and board_id = board_id])
    case (1 label_choices selected_label_ids w)
    note unf = select_labels_loop_unfold [of c board_id label_choices selected_label_ids w]
    show ?case
    proof (cases "create_label_options label_choices")
      case (Inl e)
      with "1.prems" show ?thesis by (auto simp: unf)
    next
      case (Inr label_options)
      show ?thesis
      proof (cases "print_error (lib w) (LabelPanel label_options)")
        case (Some err)
        with "1.prems" Inr show ?thesis by (auto simp: unf)
      next
        case None
        let ?w0 = "emit (Out (LabelPanel label_options)) (emit (Out Blank) w)"
        obtain r1 w1 where p: "Prompt_ask SelectLabel None (Some ''F'') ?w0 = (r1, w1)"
          by (cases "Prompt_ask SelectLabel None (Some ''F'') ?w0")
        have f1: "later w w1"
          by (rule later_emit_left [OF later_emit_left [OF frameD [OF frame_Prompt_ask p]]])
        show ?thesis
        proof (cases r1)
          case (Inl e)
          with "1.prems" Inr None p have "w' = w1" by (simp add: unf)
          with f1 show ?thesis by simp
        next
          case sel: (Inr label_selection)
          note p' = p [unfolded sel]
          consider (finish) "upper label_selection = ''F''"
            | (new) "upper label_selection \<noteq> ''F''" "label_selection = ''0''"
            | (pick) label where "upper label_selection \<noteq> ''F''" "label_selection \<noteq> ''0''"
                "map_of label_choices label_selection = Some label"
            | (invalid) "upper label_selection \<noteq> ''F''" "label_selection \<noteq> ''0''"
                "map_of label_choices label_selection = None"
            by (cases "map_of label_choices label_selection") auto
          then show ?thesis
          proof cases
            case finish
            with "1.prems" Inr None p sel have "w' = w1" by (simp add: unf)
            with f1 show ?thesis by simp
          next
            case new
            obtain r2 w2 where cn: "create_new_label c board_id w1 = (r2, w2)"
              by (cases "create_new_label c board_id w1")
            have f2: "later w w2"
              by (rule later_trans [OF f1 frameD [OF frame_create_new_label cn]])
            show ?thesis
            proof (cases r2)
              case (Inl e)
              with "1.prems" Inr None p sel new cn have "w' = w2" by (simp add: unf)
              with f2 show ?thesis by simp
            next
              case nl: (Inr new_label)
              show ?thesis
              proof (cases "getitem new_label ''id''")
                case (Inl e)
                with "1.prems" Inr None p sel new cn nl have "w' = w2" by (simp add: unf)
                with f2 show ?thesis by simp
              next
                case nid: (Inr new_id)
                with "1.prems" Inr None p sel new cn nl
                have "select_labels_loop c board_id
                        (AList.update (str_nat (length label_choices + 1)) new_label label_choices)
                        (selected_label_ids @ [new_id]) w2 = (r, w')"
                  by (simp add: unf)
                from "1.IH"(1) [OF Inr None p' new(1) new(2) cn [unfolded nl] nid this]
                have "later w2 w'" .
                with f2 show ?thesis by (rule later_trans)
              qed
            qed
          next
            case pick
            show ?thesis
            proof (cases "getitem label ''id''")
              case (Inl e)
              with "1.prems" Inr None p sel pick have "w' = w1" by (simp add: unf)
              with f1 show ?thesis by simp
            next
              case lid: (Inr label_id)
              with "1.prems" Inr None p sel pick
              have "select_labels_loop c board_id label_choices (selected_label_ids @ [label_id])
                      (emit (Out (LabelSelected (length (selected_label_ids @ [label_id])))) w1) = (r, w')"
                by (simp add: unf)
              from "1.IH"(2) [OF Inr None p' pick(1) pick(2) pick(3) lid this]
              have "later (emit (Out (LabelSelected (length (selected_label_ids @ [label_id])))) w1) w'" .
              then show ?thesis using f1 by (blast intro: later_trans later_emit_left)
            qed
          next
            case invalid
            show ?thesis
            proof (cases "print_error (lib w1) (InvalidSelection label_selection)")
              case (Some err)
              with "1.prems" Inr None p sel invalid have "w' = w1" by (simp add: unf)
              with f1 show ?thesis by simp
            next
              case shown: None
              with "1.prems" Inr None p sel invalid
              have "select_labels_loop c board_id label_choices selected_label_ids
                      (emit (Out (InvalidSelection label_selection)) w1) = (r, w')"
                by (simp add: unf)
              from "1.IH"(3) [OF Inr None p' invalid(1) invalid(2) invalid(3) shown this]
              have "later (emit (Out (InvalidSelection label_selection)) w1) w'" .
              then show ?thesis using f1 by (blast intro: later_trans later_emit_left)
            qed
          qed
        qed
      qed
    qed
  qed
  then show ?thesis unfolding frame_def by blast
qed


lemma frame_select_board [intro!, simp]: "frame (select_board c)"
  unfolding select_board_def get_boards_def Let_def
  by (intro frame_bind frame_if frame_trello_get frame_console_print frame_lift frame_Prompt_ask)

lemma frame_select_list [intro!, simp]: "frame (select_list c board_id)"
  unfolding select_list_def get_lists_def Let_def
  by (intro frame_bind frame_if frame_trello_get frame_console_print frame_lift frame_Prompt_ask)

lemma frame_get_card_details [intro!, simp]: "frame get_card_details"
  unfolding get_card_details_def
  by (intro frame_bind frame_console_print frame_lift frame_Prompt_ask frame_title_loop)

lemma frame_select_labels [intro!, simp]: "frame (select_labels c board_id)"
  unfolding select_labels_def get_labels_def
  by (intro frame_bind frame_trello_get frame_lift frame_select_labels_loop)

lemma frame_create_card [intro!, simp]: "frame (create_card c list_id name desc label_ids)"
  unfolding create_card_def Let_def by (rule frame_trello_post)

lemma frame_add_comment [intro!, simp]: "frame (add_comment c card_id text)"
  unfolding add_comment_def Let_def by (rule frame_trello_post)

text \<open>A step that returns only after the user has typed a line.\<close>

definition consumes :: "'a io \<Rightarrow> bool" where
  "consumes m \<longleftrightarrow> (\<forall>w x w'. m w = (Inr x, w') \<longrightarrow> length (stdin w') < length (stdin w))"

lemma consumes_Confirm_then:
  "consumes (io_bind (Confirm_ask p dflt) (\<lambda>answer. io_lift (g answer)))"
  by (auto simp: consumes_def io_bind_def io_lift_def dest: Confirm_ask_stdin
      split: prod.splits sum.splits)

lemma consumes_after:
  assumes "frame m" "\<And>x. consumes (f x)"
  shows "consumes (io_bind m f)"
  unfolding consumes_def
proof (intro allI impI)
  fix w y w'
  assume run: "io_bind m f w = (Inr y, w')"
  obtain r1 w1 where m: "m w = (r1, w1)" by (cases "m w")
  from later_stdin [OF frameD [OF assms(1) m]] have le: "length (stdin w1) \<le> length (stdin w)" .
  from run m obtain x where "r1 = Inr x" "f x w1 = (Inr y, w')"
    by (cases r1) (auto simp: io_bind_def)
  with assms(2) [of x] have "length (stdin w') < length (stdin w1)"
    unfolding consumes_def by blast
  with le show "length (stdin w') < length (stdin w)" by simp
qed

lemma consumes_if: "consumes a \<Longrightarrow> consumes b \<Longrightarrow> consumes (if c then a else b)"
  by simp

lemma consumes_add_card_body: "consumes (add_card_body c)"
  unfolding add_card_body_def Let_def
  by (intro consumes_Confirm_then consumes_after consumes_if frame_console_print frame_select_board
      frame_select_list frame_get_card_details frame_select_labels frame_lift frame_create_card
      frame_Confirm_ask frame_if frame_bind frame_Prompt_ask frame_add_comment)

lemma frame_add_card_body [intro!, simp]: "frame (add_card_body c)"
  unfolding add_card_body_def Let_def
  by (intro frame_console_print frame_select_board
      frame_select_list frame_get_card_details frame_select_labels frame_lift frame_create_card
      frame_Confirm_ask frame_if frame_bind frame_Prompt_ask frame_add_comment)

lemma add_card_body_later: "add_card_body c w = (r, w') \<Longrightarrow> later w w'"
  by (rule frameD [OF frame_add_card_body])

lemma add_card_body_stdin:
  "add_card_body c w = (Inr x, w') \<Longrightarrow> length (stdin w') < length (stdin w)"
  using consumes_add_card_body unfolding consumes_def by blast

lemma frame_report_error [intro!, simp]: "frame (report_error err)"
  unfolding report_error_def
  by (cases err) (auto intro!: frame_bind frame_console_print)

text \<open>
  \<open>add_card\<close>: the loop runs the body; \<open>break\<close> returns, \<open>continue\<close> and the end of the
  body start the next pass. An exception of the body is caught: the handler prints it and
  the answer to \<open>Do you want to try again?\<close> decides between leaving the loop and the
  next pass. An exception raised inside the handler, by its print or by the question
  (the terminal closed), leaves \<open>add_card\<close>.
\<close>

function add_card :: "creds \<Rightarrow> unit io" where
  "add_card c w =
     (case add_card_body c w of
        (Inr Break, w1) \<Rightarrow> (Inr (), w1)
      | (Inr Continue, w1) \<Rightarrow> add_card c w1
      | (Inl err, w1) \<Rightarrow>
          (case io_bind (report_error err) (\<lambda>_. Confirm_ask TryAgain True) w1 of
             (Inl err', w2) \<Rightarrow> (Inl err', w2)
           | (Inr again, w2) \<Rightarrow> if \<not> again then (Inr (), w2) else add_card c w2))"
  by pat_completeness auto
termination
proof (relation "measure (\<lambda>(c, w). length (stdin w))", goal_cases)
  case 1
  show ?case by simp
next
  case (2 c w x w1 err y w2 again)
  from 2 have "length (stdin w1) \<le> length (stdin w)"
    by (metis add_card_body_later later_stdin)
  moreover have "consumes (io_bind (report_error err) (\<lambda>_. Confirm_ask TryAgain True))"
    by (rule consumes_after [OF frame_report_error]) (auto simp: consumes_def dest: Confirm_ask_stdin)
  with 2 have "length (stdin w2) < length (stdin w1)"
    unfolding consumes_def by metis
  ultimately show ?case by simp
next
  case 3
  then show ?case by (auto dest!: add_card_body_stdin [OF sym])
qed

declare add_card.simps [simp del]

definition cli :: "creds \<Rightarrow> unit io" where
  "cli c = add_card c"

text \<open>
  Running \<open>cli.py\<close>: its imports load \<open>src.api\<close> first, which may exit; otherwise \<open>cli()\<close>
  runs. The process ends with an exit status, or with the exception that left \<open>cli()\<close>.
\<close>

datatype outcome = Exited nat | Uncaught error

definition program :: "(string \<Rightarrow> string option) \<Rightarrow> world \<Rightarrow> outcome \<times> world" where
  "program getenv w =
     (case api_module getenv w of
        (Inl status, w1) \<Rightarrow> (Exited status, w1)
      | (Inr c, w1) \<Rightarrow>
          (case cli c w1 of
             (Inl err, w2) \<Rightarrow> (Uncaught err, w2)
           | (Inr _, w2) \<Rightarrow> (Exited 0, w2)))"

section \<open>The API client\<close>

text \<open>What a call of \<open>trello_get\<close> or \<open>trello_post\<close> does: one request, and a result that
  the response determines.\<close>

definition merged :: "creds \<Rightarrow> pydict option \<Rightarrow> pydict" where
  "merged c extra =
     (case extra of
        None \<Rightarrow> [(''key'', JStr (API_KEY c)), (''token'', JStr (TOKEN c))]
      | Some p \<Rightarrow>
          if p \<noteq> [] then dict_update [(''key'', JStr (API_KEY c)), (''token'', JStr (TOKEN c))] p
          else [(''key'', JStr (API_KEY c)), (''token'', JStr (TOKEN c))])"

definition outcome_of :: "string + response \<Rightarrow> error + json" where
  "outcome_of reply =
     (case reply of
        Inl text \<Rightarrow> Inl (ConnectionError text)
      | Inr r \<Rightarrow>
          if 400 \<le> status_code r \<and> status_code r < 600
          then Inl (HTTPError (status_code r) (http_error_msg r))
          else (case json_body r of Inl text \<Rightarrow> Inl (JSONDecodeError text) | Inr j \<Rightarrow> Inr j))"

lemma trello_get_result:
  "trello_get c ep params w =
     (outcome_of (server w (trace w) GET TRELLO_API_BASE_URL ep (merged c params)),
      emit (Http GET TRELLO_API_BASE_URL ep (merged c params)) w)"
  by (simp add: trello_get_def io_bind_def io_lift_def requests_send_def raise_for_status_def
      response_json_def Let_def merged_def outcome_of_def split: sum.splits)

lemma trello_post_result:
  "trello_post c ep data w =
     (outcome_of (server w (trace w) POST TRELLO_API_BASE_URL ep (merged c data)),
      emit (Http POST TRELLO_API_BASE_URL ep (merged c data)) w)"
  by (simp add: trello_post_def io_bind_def io_lift_def requests_send_def raise_for_status_def
      response_json_def Let_def merged_def outcome_of_def split: sum.splits)

text \<open>The six operations of the client, to speak of all of them at once.\<close>

datatype api_call =
    GetBoards
  | GetLists json
  | GetLabels json
  | CreateLabel json string json
  | CreateCard json string string string
  | AddComment json string

fun perform :: "creds \<Rightarrow> api_call \<Rightarrow> json io" where
  "perform c GetBoards = get_boards c"
| "perform c (GetLists board_id) = get_lists c board_id"
| "perform c (GetLabels board_id) = get_labels c board_id"
| "perform c (CreateLabel board_id name color) = create_label c board_id name color"
| "perform c (CreateCard list_id name desc label_ids) = create_card c list_id name desc label_ids"
| "perform c (AddComment card_id text) = add_comment c card_id text"

lemma perform_result:
  "\<exists>m ep d. perform c call w =
     (outcome_of (server w (trace w) m TRELLO_API_BASE_URL ep d),
      emit (Http m TRELLO_API_BASE_URL ep d) w)"
  by (cases call)
     (auto simp: get_boards_def get_lists_def get_labels_def create_label_def create_card_def
        add_comment_def trello_get_result trello_post_result Let_def)

definition c0 :: creds where
  "c0 = \<lparr>API_KEY = ''key'', TOKEN = ''token''\<rparr>"

text \<open>
  The libraries of the examples: on the style names of this program (\<open>italic\<close>, \<open>bold\<close>,
  \<open>bold red\<close>) \<open>Style.normalize\<close> is the identity, as stripping and lower-casing is; the
  examples close no \<open>@\<close> tag and print no list or dict.
\<close>

definition example_library :: library where
  "example_library =
     \<lparr>style_normalize = (\<lambda>name. lower (strip name)),
      meta_error = (\<lambda>parameters. None),
      py_repr = (\<lambda>v. [])\<rparr>"

text \<open>What evaluates the rendering of a given text with these libraries.\<close>

lemmas markup_eval =
  print_error_def markup_error_def take_tag_def tag_start_def in_tag_def is_backslash_def
  apply_tag_def close_meta_def strip_def isspace_def example_library_def lower_def lower_char_def
  str_int_def name_text_def

definition ok_response :: "json \<Rightarrow> response" where
  "ok_response payload =
     \<lparr>status_code = 200, reason = ''OK'', url = TRELLO_API_BASE_URL, json_body = Inr payload\<rparr>"

definition reply_world :: "string list \<Rightarrow> response \<Rightarrow> world" where
  "reply_world ls r =
     \<lparr>stdin = ls, server = (\<lambda>tr m base ep d. Inr r), trace = [],
     lib = example_library\<rparr>"


section \<open>Reasoning about what a step adds to the trace\<close>

definition new_events :: "world \<Rightarrow> world \<Rightarrow> event list" where
  "new_events w w' = drop (length (trace w)) (trace w')"

lemma new_events_refl [simp]: "new_events w w = []"
  by (simp add: new_events_def)

lemma new_events_step:
  assumes "later w1 w'" "trace w1 = trace w @ es"
  shows "new_events w w' = es @ new_events w1 w'"
proof -
  from assms(1) obtain xs where "trace w' = trace w1 @ xs"
    by (auto simp: later_def prefix_def)
  with assms(2) show ?thesis by (simp add: new_events_def)
qed

lemma new_events_trans:
  assumes "later w w1" "later w1 w2"
  shows "new_events w w2 = new_events w w1 @ new_events w1 w2"
proof -
  from assms(1) obtain es where es: "trace w1 = trace w @ es"
    by (auto simp: later_def prefix_def)
  then have "new_events w w1 = es" by (simp add: new_events_def)
  with new_events_step [OF assms(2) es] show ?thesis by simp
qed

lemma new_events_emit [simp]: "new_events w (emit e w) = [e]"
  by (simp add: new_events_def)

lemma new_events_emit_read [simp]: "new_events w ((emit e w)\<lparr>stdin := ls\<rparr>) = [e]"
  by (simp add: new_events_def)

lemma trace_new_events: "later w w' \<Longrightarrow> trace w' = trace w @ new_events w w'"
  using new_events_step [of w w' w "[]"] by (auto simp: later_def prefix_def new_events_def)

text \<open>
  \<open>triple A m B\<close>: when the events so far satisfy \<open>A\<close> and \<open>m\<close> ends with result \<open>r\<close>,
  the events so far and those \<open>m\<close> added satisfy \<open>B r\<close>.
\<close>

definition triple :: "(event list \<Rightarrow> bool) \<Rightarrow> 'a io \<Rightarrow> (error + 'a \<Rightarrow> event list \<Rightarrow> bool) \<Rightarrow> bool" where
  "triple A m B \<longleftrightarrow>
     frame m \<and> (\<forall>w r w' pre. m w = (r, w') \<longrightarrow> A pre \<longrightarrow> B r (pre @ new_events w w'))"

definition keeps :: "(event list \<Rightarrow> bool) \<Rightarrow> event \<Rightarrow> bool" where
  "keeps I e \<longleftrightarrow> (\<forall>evs. I evs \<longrightarrow> I (evs @ [e]))"

lemma keepsD: "keeps I e \<Longrightarrow> I evs \<Longrightarrow> I (evs @ [e])"
  by (simp add: keeps_def)

lemma tripleD: "triple A m B \<Longrightarrow> m w = (r, w') \<Longrightarrow> A pre \<Longrightarrow> B r (pre @ new_events w w')"
  by (simp add: triple_def)

lemma triple_frame: "triple A m B \<Longrightarrow> frame m"
  by (simp add: triple_def)

lemma triple_lift: "(\<And>pre. A pre \<Longrightarrow> B r pre) \<Longrightarrow> triple A (io_lift r) B"
  by (simp add: triple_def io_lift_def)

text \<open>A print adds its message, or raises and adds nothing.\<close>

lemma triple_console_print:
  "(\<And>pre. A pre \<Longrightarrow> B (Inr ()) (pre @ [Out m])) \<Longrightarrow> (\<And>pre e. A pre \<Longrightarrow> B (Inl e) pre)
   \<Longrightarrow> triple A (console_print m) B"
  by (auto simp: triple_def console_print_def split: option.splits)

lemma triple_weaken:
  "triple A' m B' \<Longrightarrow> (\<And>pre. A pre \<Longrightarrow> A' pre) \<Longrightarrow> (\<And>r evs. B' r evs \<Longrightarrow> B r evs)
   \<Longrightarrow> triple A m B"
  unfolding triple_def by blast

lemma triple_bind:
  assumes m: "triple A m B"
    and err: "\<And>e evs. B (Inl e) evs \<Longrightarrow> C (Inl e) evs"
    and f: "\<And>x. triple (B (Inr x)) (f x) C"
  shows "triple A (io_bind m f) C"
  unfolding triple_def
proof (intro conjI allI impI)
  show "frame (io_bind m f)"
    using m f by (intro frame_bind triple_frame)
next
  fix w r w' pre
  assume run: "io_bind m f w = (r, w')" and pre: "A pre"
  obtain r1 w1 where m1: "m w = (r1, w1)" by (cases "m w")
  have l1: "later w w1" by (rule frameD [OF triple_frame [OF m] m1])
  have b1: "B r1 (pre @ new_events w w1)" by (rule tripleD [OF m m1 pre])
  show "C r (pre @ new_events w w')"
  proof (cases r1)
    case (Inl e)
    with run m1 have "w' = w1" "r = Inl e" by (auto simp: io_bind_def)
    with b1 Inl err show ?thesis by simp
  next
    case (Inr x)
    with run m1 have fx: "f x w1 = (r, w')" by (simp add: io_bind_def)
    have l2: "later w1 w'" by (rule frameD [OF triple_frame [OF f] fx])
    from b1 Inr have "B (Inr x) (pre @ new_events w w1)" by simp
    from tripleD [OF f fx this] show ?thesis
      by (simp add: new_events_trans [OF l1 l2])
  qed
qed

lemma triple_if:
  "(c \<Longrightarrow> triple A a B) \<Longrightarrow> (\<not> c \<Longrightarrow> triple A b B) \<Longrightarrow> triple A (if c then a else b) B"
  by simp


lemma triple_trello_get:
  "(\<And>pre r. A pre \<Longrightarrow> B r (pre @ [Http GET TRELLO_API_BASE_URL ep (merged c params)]))
   \<Longrightarrow> triple A (trello_get c ep params) B"
  by (simp add: triple_def trello_get_result)

lemma triple_trello_post:
  "(\<And>pre r. A pre \<Longrightarrow> B r (pre @ [Http POST TRELLO_API_BASE_URL ep (merged c data)]))
   \<Longrightarrow> triple A (trello_post c ep data) B"
  by (simp add: triple_def trello_post_result)

lemma Prompt_ask_no_choices:
  "Prompt_ask p None dflt w =
     (case stdin w of
        [] \<Rightarrow> (Inl EOFError, emit (Ask p) w)
      | line # rest \<Rightarrow>
          (Inr (if line = [] \<and> dflt \<noteq> None then the dflt else strip line),
           (emit (Ask p) w)\<lparr>stdin := rest\<rparr>))"
  by (simp add: Prompt_ask.simps [of p None dflt w] Let_def split: list.splits)

lemma triple_Prompt_ask_no_choices:
  "(\<And>pre r. A pre \<Longrightarrow> B r (pre @ [Ask p])) \<Longrightarrow> triple A (Prompt_ask p None dflt) B"
  by (auto simp: triple_def Prompt_ask_no_choices split: list.splits)

lemma triple_Prompt_ask:
  assumes k1: "keeps I (Ask p)" and k2: "keeps I (Out InvalidChoice)"
  shows "triple I (Prompt_ask p choices dflt)
           (\<lambda>r evs. I evs \<and> (\<forall>v. r = Inr v \<longrightarrow> Some v = dflt \<or> (\<forall>cs. choices = Some cs \<longrightarrow> v \<in> set cs)))"
proof -
  have "I (pre @ new_events w w') \<and>
        (\<forall>v. r = Inr v \<longrightarrow> Some v = dflt \<or> (\<forall>cs. choices = Some cs \<longrightarrow> v \<in> set cs))"
    if "Prompt_ask p choices dflt w = (r, w')" "I pre" for w r w' pre
    using that k1 k2
  proof (induction p choices dflt w arbitrary: pre rule: Prompt_ask.induct)
    case (1 p choices dflt w)
    note k1 = keepsD [OF "1.prems"(3)] and k2 = "1.prems"(4)
    show ?case
    proof (cases "stdin w")
      case Nil
      with "1.prems" k1 [of pre] show ?thesis
        by (auto simp: Prompt_ask.simps [of p choices dflt w])
    next
      case (Cons line rest)
      let ?w1 = "(emit (Ask p) w)\<lparr>stdin := rest\<rparr>"
      show ?thesis
      proof (cases "(line = [] \<and> dflt \<noteq> None) \<or> (case choices of None \<Rightarrow> True | Some cs \<Rightarrow> strip line \<in> set cs)")
        case True
        with "1.prems" Cons k1 [of pre] show ?thesis
          by (auto simp: Prompt_ask.simps [of p choices dflt w] Let_def split: if_splits)
      next
        case False
        with "1.prems" Cons
        have run: "Prompt_ask p choices dflt (emit (Out InvalidChoice) ?w1) = (r, w')"
          by (auto simp: Prompt_ask.simps [of p choices dflt w] Let_def split: if_splits)
        have l2: "later (emit (Out InvalidChoice) ?w1) w'"
          by (rule frameD [OF frame_Prompt_ask run])
        have ne: "new_events w w' = [Ask p, Out InvalidChoice] @ new_events (emit (Out InvalidChoice) ?w1) w'"
          by (rule new_events_step [OF l2]) simp
        from k1 [OF "1.prems"(2)] have "I ((pre @ [Ask p]) @ [Out InvalidChoice])"
          by (rule keepsD [OF k2])
        then have "I (pre @ [Ask p, Out InvalidChoice])" by simp
        from "1.IH" [OF Cons refl _ _ run this "1.prems"(3) "1.prems"(4)] False
        show ?thesis by (simp add: ne)
      qed
    qed
  qed
  then show ?thesis unfolding triple_def by (auto intro: frame_Prompt_ask)
qed


lemma triple_Confirm_ask:
  assumes k1: "keeps I (Ask p)" and k2: "keeps I (Out InvalidYesNo)"
  shows "triple I (Confirm_ask p dflt) (\<lambda>r evs. I evs)"
proof -
  have "I (pre @ new_events w w')"
    if "Confirm_ask p dflt w = (r, w')" "I pre" for w r w' pre
    using that k1 k2
  proof (induction p dflt w arbitrary: pre rule: Confirm_ask.induct)
    case (1 p dflt w)
    note k1 = keepsD [OF "1.prems"(3)] and k2 = "1.prems"(4)
    show ?case
    proof (cases "stdin w")
      case Nil
      with "1.prems" k1 [of pre] show ?thesis
        by (auto simp: Confirm_ask.simps [of p dflt w])
    next
      case (Cons line rest)
      let ?w1 = "(emit (Ask p) w)\<lparr>stdin := rest\<rparr>"
      show ?thesis
      proof (cases "line = [] \<or> lower (strip line) \<in> set [''y'', ''n'']")
        case True
        with "1.prems" Cons k1 [of pre] show ?thesis
          by (auto simp: Confirm_ask.simps [of p dflt w] Let_def split: if_splits)
      next
        case False
        with "1.prems" Cons
        have run: "Confirm_ask p dflt (emit (Out InvalidYesNo) ?w1) = (r, w')"
          by (auto simp: Confirm_ask.simps [of p dflt w] Let_def split: if_splits)
        have l2: "later (emit (Out InvalidYesNo) ?w1) w'"
          by (rule frameD [OF frame_Confirm_ask run])
        have ne: "new_events w w' = [Ask p, Out InvalidYesNo] @ new_events (emit (Out InvalidYesNo) ?w1) w'"
          by (rule new_events_step [OF l2]) simp
        from k1 [OF "1.prems"(2)] have "I ((pre @ [Ask p]) @ [Out InvalidYesNo])"
          by (rule keepsD [OF k2])
        then have "I (pre @ [Ask p, Out InvalidYesNo])" by simp
        from "1.IH" [OF Cons refl _ _ run this "1.prems"(3) "1.prems"(4)] False
        show ?thesis by (simp add: ne)
      qed
    qed
  qed
  then show ?thesis unfolding triple_def by (auto intro: frame_Confirm_ask)
qed

lemma triple_title_loop:
  assumes k1: "keeps I (Out TitleTooShort)" and k2: "keeps I (Ask EnterCardTitle)"
  shows "triple I (title_loop card_title)
           (\<lambda>r evs. I evs \<and> (\<forall>t. r = Inr t \<longrightarrow> MIN_CARD_TITLE_LENGTH \<le> length (strip t)))"
proof -
  have "I (pre @ new_events w w') \<and> (\<forall>t. r = Inr t \<longrightarrow> MIN_CARD_TITLE_LENGTH \<le> length (strip t))"
    if "title_loop card_title w = (r, w')" "I pre" for w r w' pre
    using that
  proof (induction card_title w arbitrary: pre rule: title_loop_induct)
    case (1 card_title w)
    show ?case
    proof (cases "length (strip card_title) < MIN_CARD_TITLE_LENGTH")
      case False
      with "1.prems" show ?thesis by (auto simp: title_loop_unfold [of card_title w])
    next
      case True
      let ?w0 = "emit (Out TitleTooShort) w"
      obtain r1 w1 where p: "Prompt_ask EnterCardTitle None None ?w0 = (r1, w1)"
        by (cases "Prompt_ask EnterCardTitle None None ?w0")
      have l1: "later ?w0 w1" by (rule frameD [OF frame_Prompt_ask p])
      have "I ((pre @ [Out TitleTooShort]) @ [Ask EnterCardTitle])"
        by (intro keepsD [OF k2] keepsD [OF k1] "1.prems"(2))
      then have i1: "I (pre @ [Out TitleTooShort, Ask EnterCardTitle])" by simp
      from p have ne1: "new_events ?w0 w1 = [Ask EnterCardTitle]"
        by (auto simp: Prompt_ask_no_choices split: list.splits)
      have ne: "new_events w w1 = [Out TitleTooShort, Ask EnterCardTitle]"
        using new_events_step [OF l1, of w "[Out TitleTooShort]"] ne1 by simp
      show ?thesis
      proof (cases r1)
        case (Inl e)
        with "1.prems" True p have "w' = w1" "r = Inl e"
          by (auto simp: title_loop_unfold [of card_title w])
        with i1 ne show ?thesis by simp
      next
        case (Inr t)
        with "1.prems" True p have run: "title_loop t w1 = (r, w')"
          by (simp add: title_loop_unfold [of card_title w])
        have l2: "later w1 w'" by (rule frameD [OF frame_title_loop run])
        have "new_events w w' = new_events w w1 @ new_events w1 w'"
          by (rule new_events_trans [OF later_emit_left [OF l1] l2])
        with "1.IH" [OF True p [unfolded Inr, symmetric] run i1] ne show ?thesis by simp
      qed
    qed
  qed
  then show ?thesis unfolding triple_def by (auto intro: frame_title_loop)
qed

lemma triple_name_loop:
  assumes k1: "keeps I (Out LabelNameEmpty)" and k2: "keeps I (Ask EnterLabelName)"
  shows "triple I (name_loop label_name)
           (\<lambda>r evs. I evs \<and> (\<forall>n. r = Inr n \<longrightarrow> strip n \<noteq> []))"
proof -
  have "I (pre @ new_events w w') \<and> (\<forall>n. r = Inr n \<longrightarrow> strip n \<noteq> [])"
    if "name_loop label_name w = (r, w')" "I pre" for w r w' pre
    using that
  proof (induction label_name w arbitrary: pre rule: name_loop_induct)
    case (1 label_name w)
    show ?case
    proof (cases "strip label_name = []")
      case False
      with "1.prems" show ?thesis by (auto simp: name_loop_unfold [of label_name w])
    next
      case True
      let ?w0 = "emit (Out LabelNameEmpty) w"
      obtain r1 w1 where p: "Prompt_ask EnterLabelName None None ?w0 = (r1, w1)"
        by (cases "Prompt_ask EnterLabelName None None ?w0")
      have l1: "later ?w0 w1" by (rule frameD [OF frame_Prompt_ask p])
      have "I ((pre @ [Out LabelNameEmpty]) @ [Ask EnterLabelName])"
        by (intro keepsD [OF k2] keepsD [OF k1] "1.prems"(2))
      then have i1: "I (pre @ [Out LabelNameEmpty, Ask EnterLabelName])" by simp
      from p have ne1: "new_events ?w0 w1 = [Ask EnterLabelName]"
        by (auto simp: Prompt_ask_no_choices split: list.splits)
      have ne: "new_events w w1 = [Out LabelNameEmpty, Ask EnterLabelName]"
        using new_events_step [OF l1, of w "[Out LabelNameEmpty]"] ne1 by simp
      show ?thesis
      proof (cases r1)
        case (Inl e)
        with "1.prems" True p have "w' = w1" "r = Inl e"
          by (auto simp: name_loop_unfold [of label_name w])
        with i1 ne show ?thesis by simp
      next
        case (Inr t)
        with "1.prems" True p have run: "name_loop t w1 = (r, w')"
          by (simp add: name_loop_unfold [of label_name w])
        have l2: "later w1 w'" by (rule frameD [OF frame_name_loop run])
        have "new_events w w' = new_events w w1 @ new_events w1 w'"
          by (rule new_events_trans [OF later_emit_left [OF l1] l2])
        with "1.IH" [OF True p [unfolded Inr, symmetric] run i1] ne show ?thesis by simp
      qed
    qed
  qed
  then show ?thesis unfolding triple_def by (auto intro: frame_name_loop)
qed

text \<open>The request \<open>create_label\<close> sends, and the colour argument \<open>create_new_label\<close>
  makes of the answer to the colour prompt.\<close>

definition label_request :: "creds \<Rightarrow> json \<Rightarrow> string \<Rightarrow> string \<Rightarrow> event" where
  "label_request c board_id name color =
     Http POST TRELLO_API_BASE_URL Labels
       [(''key'', JStr (API_KEY c)), (''token'', JStr (TOKEN c)), (''name'', JStr name),
        (''color'', if color = ''null'' then JNull else JStr color), (''idBoard'', board_id)]"

lemma create_label_request:
  "Http POST TRELLO_API_BASE_URL Labels
     (merged c (Some [(''name'', JStr name), (''color'', if color = ''null'' then JNull else JStr color),
                      (''idBoard'', board_id)])) = label_request c board_id name color"
  by (simp add: merged_def dict_update_def label_request_def)

lemma triple_create_new_label:
  assumes "keeps I (Ask EnterLabelName)" "keeps I (Out LabelNameEmpty)"
    "keeps I (Ask EnterLabelColor)" "keeps I (Out InvalidChoice)"
    "\<And>name color. strip name \<noteq> [] \<Longrightarrow> color \<in> set VALID_COLORS \<Longrightarrow>
       keeps I (label_request c board_id name color)"
    "\<And>name. keeps I (Out (NewLabelCreated name))"
  shows "triple I (create_new_label c board_id) (\<lambda>r evs. I evs)"
  unfolding create_new_label_def create_label_def ask_label_color_def Let_def
proof (rule triple_bind [where B = "\<lambda>r evs. I evs"], goal_cases)
  case 1
  show ?case by (rule triple_Prompt_ask_no_choices) (rule keepsD [OF assms(1)])
next
  case 2
  then show ?case .
next
  case (3 label_name)
  show ?case
  proof (rule triple_bind [OF triple_name_loop [OF assms(2) assms(1)]], goal_cases)
    case 1
    then show ?case by simp
  next
    case (2 name)
    show ?case
    proof (rule triple_bind [where B = "\<lambda>r evs. I evs \<and> strip name \<noteq> [] \<and>
        (\<forall>v. r = Inr v \<longrightarrow> v \<in> set VALID_COLORS)"], goal_cases)
      case 1
      show ?case
      proof (cases "strip name = []")
        case True
        then show ?thesis
          by (auto simp: triple_def)
      next
        case False
        have "''blue'' \<in> set VALID_COLORS" by (simp add: VALID_COLORS_def)
        with False show ?thesis
          by (auto intro!: triple_weaken [OF triple_Prompt_ask [OF assms(3) assms(4)]])
      qed
    next
      case 2
      then show ?case by simp
    next
      case (3 color)
      show ?case
      proof (rule triple_bind [where B = "\<lambda>r evs. I evs"], goal_cases)
        case 1
        show ?case
          by (rule triple_trello_post)
             (auto simp: create_label_request intro: keepsD [OF assms(5)])
      next
        case 2
        then show ?case .
      next
        case (3 new_label)
        show ?case
          by (rule triple_bind [where B = "\<lambda>r evs. I evs"])
             (auto intro!: triple_console_print triple_lift keepsD [OF assms(6)])
      qed
    qed
  qed
qed

section \<open>The claims about the API client\<close>

text \<open>Responses with an empty list as payload, for the examples.\<close>

definition boards_url :: string where
  "boards_url = ''https://api.trello.com/1/members/me/boards?key=key&token=token&fields=name%2Cid''"

definition plain_response :: "nat \<Rightarrow> string \<Rightarrow> response" where
  "plain_response status phrase =
     \<lparr>status_code = status, reason = phrase, url = boards_url, json_body = Inr (JArr [])\<rparr>"

text \<open>
  Claim C1, as the code has it. Every operation of the client sends one request. When the
  status of the response is 4xx or 5xx the operation raises an HTTP error instead of
  returning; for every other status it returns the parsed JSON payload of the response
  unchanged (and raises when the body is not JSON); without a response it raises a
  connection error. The HTTP error carries the status and the text that
  \<open>raise_for_status\<close> builds from status, reason and URL.
\<close>

theorem api_status_result:
  assumes "perform c call w = (r, w')"
  shows "\<exists>m ep d. trace w' = trace w @ [Http m TRELLO_API_BASE_URL ep d] \<and>
           (case server w (trace w) m TRELLO_API_BASE_URL ep d of
              Inl text \<Rightarrow> r = Inl (ConnectionError text)
            | Inr resp \<Rightarrow>
                if 400 \<le> status_code resp \<and> status_code resp < 600
                then r = Inl (HTTPError (status_code resp) (http_error_msg resp))
                else (case json_body resp of
                        Inl text \<Rightarrow> r = Inl (JSONDecodeError text)
                      | Inr payload \<Rightarrow> r = Inr payload))"
proof -
  from perform_result [of c call w] assms obtain m ep d
    where r: "r = outcome_of (server w (trace w) m TRELLO_API_BASE_URL ep d)"
      and w': "w' = emit (Http m TRELLO_API_BASE_URL ep d) w"
    by auto
  have "trace w' = trace w @ [Http m TRELLO_API_BASE_URL ep d]"
    by (simp add: w')
  moreover have "(case server w (trace w) m TRELLO_API_BASE_URL ep d of
              Inl text \<Rightarrow> r = Inl (ConnectionError text)
            | Inr resp \<Rightarrow>
                if 400 \<le> status_code resp \<and> status_code resp < 600
                then r = Inl (HTTPError (status_code resp) (http_error_msg resp))
                else (case json_body resp of
                        Inl text \<Rightarrow> r = Inl (JSONDecodeError text)
                      | Inr payload \<Rightarrow> r = Inr payload))"
    by (simp add: r outcome_of_def split: sum.splits)
  ultimately show ?thesis by blast
qed

lemma get_boards_404:
  "get_boards c0 (reply_world [] (plain_response 404 ''Not Found'')) =
     (Inl (HTTPError 404 (http_error_msg (plain_response 404 ''Not Found''))),
      emit (Http GET TRELLO_API_BASE_URL MembersMeBoards
              [(''key'', JStr ''key''), (''token'', JStr ''token''), (''fields'', JStr ''name,id'')])
        (reply_world [] (plain_response 404 ''Not Found'')))"
  by (simp add: get_boards_def trello_get_result merged_def outcome_of_def reply_world_def c0_def
      dict_update_def plain_response_def)

theorem api_status_result_witness:
  "perform c0 GetBoards (reply_world [] (plain_response 404 ''Not Found'')) =
     (Inl (HTTPError 404 (http_error_msg (plain_response 404 ''Not Found''))),
      emit (Http GET TRELLO_API_BASE_URL MembersMeBoards
              [(''key'', JStr ''key''), (''token'', JStr ''token''), (''fields'', JStr ''name,id'')])
        (reply_world [] (plain_response 404 ''Not Found''))) \<and>
   (\<exists>m ep d. [Http GET TRELLO_API_BASE_URL MembersMeBoards
              [(''key'', JStr ''key''), (''token'', JStr ''token''), (''fields'', JStr ''name,id'')]]
        = [Http m TRELLO_API_BASE_URL ep d])"
proof -
  have run: "perform c0 GetBoards (reply_world [] (plain_response 404 ''Not Found'')) =
     (Inl (HTTPError 404 (http_error_msg (plain_response 404 ''Not Found''))),
      emit (Http GET TRELLO_API_BASE_URL MembersMeBoards
              [(''key'', JStr ''key''), (''token'', JStr ''token''), (''fields'', JStr ''name,id'')])
        (reply_world [] (plain_response 404 ''Not Found'')))"
    by (simp add: get_boards_404)
  from api_status_result [OF run] show ?thesis
    using run by (auto simp: reply_world_def)
qed

text \<open>
  Claim C1 as stated fails: a response whose status is 300, which is not a 2xx status,
  raises nothing, and \<open>get_boards\<close> returns its payload.
\<close>

theorem non_2xx_may_return:
  "status_code (plain_response 300 ''Multiple Choices'') = 300 \<and>
   fst (get_boards c0 (reply_world [] (plain_response 300 ''Multiple Choices''))) = Inr (JArr [])"
  by (simp add: get_boards_def trello_get_result merged_def outcome_of_def reply_world_def c0_def
      plain_response_def)


text \<open>
  Claim C9. The request that \<open>create_card\<close> sends has the field \<open>idLabels\<close> in its body
  if and only if \<open>label_ids\<close> is a non-empty string, and the field then holds that
  string; with an empty \<open>label_ids\<close> the body has the credentials, \<open>idList\<close>, \<open>name\<close>
  and \<open>desc\<close> and nothing else.
\<close>

theorem create_card_idLabels:
  "\<exists>body. trace (snd (create_card c list_id name desc label_ids w)) =
            trace w @ [Http POST TRELLO_API_BASE_URL Cards body] \<and>
          (''idLabels'' \<in> fst ` set body) = (label_ids \<noteq> []) \<and>
          map_of body ''idLabels'' = (if label_ids = [] then None else Some (JStr label_ids)) \<and>
          body = [(''key'', JStr (API_KEY c)), (''token'', JStr (TOKEN c)), (''idList'', list_id),
                  (''name'', JStr name), (''desc'', JStr desc)] @
                 (if label_ids = [] then [] else [(''idLabels'', JStr label_ids)])"
  by (simp add: create_card_def trello_post_result merged_def dict_update_def Let_def)

text \<open>
  Claim C5. When the API key or the token is absent from the environment, the process
  exits with status 1 after printing the error, and nothing else has happened: no
  request was sent, no prompt shown.
\<close>

theorem missing_credentials_exit:
  assumes "getenv ''TRELLO_API_KEY'' = None \<or> getenv ''TRELLO_TOKEN'' = None"
  shows "program getenv w = (Exited 1, emit (Out MissingCredentials) w)"
  using assms by (auto simp: program_def api_module_def falsy_env_def Let_def)

definition env_without_token :: "string \<Rightarrow> string option" where
  "env_without_token = (\<lambda>name. if name = ''TRELLO_API_KEY'' then Some ''key'' else None)"

theorem missing_credentials_exit_witness:
  "env_without_token ''TRELLO_TOKEN'' = None \<and>
   program env_without_token (reply_world [''1''] (plain_response 200 ''OK'')) =
     (Exited 1, emit (Out MissingCredentials)
        (reply_world [''1''] (plain_response 200 ''OK''))) \<and>
   trace (snd (program env_without_token
      (reply_world [''1''] (plain_response 200 ''OK'')))) = [Out MissingCredentials]"
proof -
  have h: "env_without_token ''TRELLO_API_KEY'' = None \<or> env_without_token ''TRELLO_TOKEN'' = None"
    by (simp add: env_without_token_def)
  from missing_credentials_exit [OF h] show ?thesis
    by (simp add: env_without_token_def reply_world_def)
qed

section \<open>The claims about the prompts\<close>

lemma strip_Nil [simp]: "strip [] = []"
  by (simp add: strip_def)

lemma keeps_list_all: "K e \<Longrightarrow> keeps (list_all K) e"
  by (simp add: keeps_def)

fun label_name_ok :: "event \<Rightarrow> bool" where
  "label_name_ok (Http m base ep d) =
     (m = POST \<and> ep = Labels \<and>
      (case map_of d ''name'' of Some (JStr name) \<Rightarrow> strip name \<noteq> [] \<and> name \<noteq> [] | _ \<Rightarrow> False))"
| "label_name_ok _ = True"

lemma strip_non_empty: "strip name \<noteq> [] \<Longrightarrow> name \<noteq> []"
  by auto

lemma create_new_label_rejects_name:
  assumes "stdin w = line # rest" "strip line = []"
  shows "create_new_label c board_id w =
           create_new_label c board_id
             (emit (Out LabelNameEmpty) ((emit (Ask EnterLabelName) w)\<lparr>stdin := rest\<rparr>))"
  using assms
  by (simp add: create_new_label_def io_bind_def Prompt_ask_no_choices
      name_loop_unfold [of "[]" "(emit (Ask EnterLabelName) w)\<lparr>stdin := rest\<rparr>"]
      split: prod.splits sum.splits list.splits)

definition label_world :: "string list \<Rightarrow> world" where
  "label_world ls =
     reply_world ls (ok_response (JObj [(''id'', JStr ''L1''), (''name'', JStr ''bug''), (''color'', JStr ''red'')]))"

text \<open>
  Claim C7. Whatever the user types during the creation of a new label, every request
  \<open>create_new_label\<close> sends is a label creation whose name is non-empty (also after
  stripping). A name that is empty once stripped is rejected: the message is printed and
  \<open>create_new_label\<close> goes on as if started afresh on the lines that remain, asking for
  the name again.
\<close>

theorem label_name_non_empty:
  "(create_new_label c board_id w = (r, w') \<longrightarrow> list_all label_name_ok (new_events w w')) \<and>
   (stdin w = line # rest \<and> strip line = [] \<longrightarrow>
      create_new_label c board_id w =
        create_new_label c board_id
          (emit (Out LabelNameEmpty) ((emit (Ask EnterLabelName) w)\<lparr>stdin := rest\<rparr>)))"
proof (intro conjI impI)
  assume run: "create_new_label c board_id w = (r, w')"
  have "triple (list_all label_name_ok) (create_new_label c board_id) (\<lambda>r. list_all label_name_ok)"
    by (rule triple_create_new_label)
       (auto intro!: keeps_list_all simp: label_request_def dest: strip_non_empty)
  from tripleD [OF this run, of "[]"] show "list_all label_name_ok (new_events w w')" by simp
next
  assume "stdin w = line # rest \<and> strip line = []"
  then show "create_new_label c board_id w =
        create_new_label c board_id
          (emit (Out LabelNameEmpty) ((emit (Ask EnterLabelName) w)\<lparr>stdin := rest\<rparr>))"
    by (simp add: create_new_label_rejects_name)
qed

lemma create_new_label_run:
  "create_new_label c0 (JStr ''B1'') (label_world ['' '', ''bug'', ''red'']) =
     (Inr (JObj [(''id'', JStr ''L1''), (''name'', JStr ''bug''), (''color'', JStr ''red'')]),
      \<lparr>stdin = [],
       server = server (label_world []),
       trace = [Ask EnterLabelName, Out LabelNameEmpty, Ask EnterLabelName, Ask EnterLabelColor,
                label_request c0 (JStr ''B1'') ''bug'' ''red'', Out (NewLabelCreated ''bug'')],
       lib = example_library\<rparr>)"
  by (simp add: create_new_label_def io_bind_def Prompt_ask_no_choices name_loop_unfold
      Prompt_ask.simps create_label_def ask_label_color_def trello_post_result merged_def outcome_of_def
      dict_update_def strip_def isspace_def VALID_COLORS_def console_print_def io_lift_def
      emit_def label_world_def reply_world_def c0_def label_request_def Let_def
      markup_eval ok_response_def)

theorem label_name_non_empty_witness:
  "stdin (label_world ['' '', ''bug'', ''red'']) = '' '' # [''bug'', ''red''] \<and> strip '' '' = [] \<and>
   fst (create_new_label c0 (JStr ''B1'') (label_world ['' '', ''bug'', ''red''])) =
     Inr (JObj [(''id'', JStr ''L1''), (''name'', JStr ''bug''), (''color'', JStr ''red'')]) \<and>
   list_all label_name_ok
     (new_events (label_world ['' '', ''bug'', ''red''])
        (snd (create_new_label c0 (JStr ''B1'') (label_world ['' '', ''bug'', ''red''])))) \<and>
   create_new_label c0 (JStr ''B1'') (label_world ['' '', ''bug'', ''red'']) =
     create_new_label c0 (JStr ''B1'')
       (emit (Out LabelNameEmpty)
          ((emit (Ask EnterLabelName) (label_world ['' '', ''bug'', ''red'']))\<lparr>stdin := [''bug'', ''red'']\<rparr>))"
proof -
  let ?w = "label_world ['' '', ''bug'', ''red'']"
  have s1: "stdin ?w = '' '' # [''bug'', ''red'']"
    by (simp add: label_world_def reply_world_def)
  have s2: "strip '' '' = []"
    by (simp add: strip_def isspace_def)
  have run: "create_new_label c0 (JStr ''B1'') ?w =
      (fst (create_new_label c0 (JStr ''B1'') ?w), snd (create_new_label c0 (JStr ''B1'') ?w))"
    by simp
  have r: "fst (create_new_label c0 (JStr ''B1'') ?w) =
      Inr (JObj [(''id'', JStr ''L1''), (''name'', JStr ''bug''), (''color'', JStr ''red'')])"
    by (simp add: create_new_label_run)
  note t = label_name_non_empty [of c0 "JStr ''B1''" ?w
      "fst (create_new_label c0 (JStr ''B1'') ?w)" "snd (create_new_label c0 (JStr ''B1'') ?w)"
      "'' ''" "[''bug'', ''red'']"]
  from t run have a: "list_all label_name_ok
      (new_events ?w (snd (create_new_label c0 (JStr ''B1'') ?w)))"
    by blast
  from t s1 s2 have b: "create_new_label c0 (JStr ''B1'') ?w =
     create_new_label c0 (JStr ''B1'')
       (emit (Out LabelNameEmpty) ((emit (Ask EnterLabelName) ?w)\<lparr>stdin := [''bug'', ''red'']\<rparr>))"
    by blast
  from s1 s2 r a b show ?thesis by blast
qed

fun label_color_ok :: "event \<Rightarrow> bool" where
  "label_color_ok (Http m base ep d) =
     (m = POST \<and> ep = Labels \<and>
      list_ex (\<lambda>color. map_of d ''color'' = Some (if color = ''null'' then JNull else JStr color))
        VALID_COLORS)"
| "label_color_ok _ = True"

lemma color_prompt_answer:
  assumes "ask_label_color w = (Inr color, w')"
  shows "color \<in> set VALID_COLORS"
proof -
  have "triple (\<lambda>evs. True) (Prompt_ask EnterLabelColor (Some VALID_COLORS) (Some ''blue''))
          (\<lambda>r evs. True \<and> (\<forall>v. r = Inr v \<longrightarrow> Some v = Some ''blue'' \<or>
             (\<forall>cs. Some VALID_COLORS = Some cs \<longrightarrow> v \<in> set cs)))"
    by (rule triple_Prompt_ask) (simp_all add: keeps_def)
  from tripleD [OF this assms [unfolded ask_label_color_def]]
  show ?thesis by (auto simp: VALID_COLORS_def)
qed

text \<open>
  Claim C6. Whatever the user types, the colour the colour prompt of \<open>create_new_label\<close>
  returns is one of \<open>VALID_COLORS\<close>, and every request \<open>create_new_label\<close> sends is a
  label creation whose colour comes from one of them (\<open>'null'\<close> is sent as \<open>None\<close>). A
  line whose stripped text is not in the set is rejected: the message is printed and the
  prompt is shown again on the lines that remain. (The empty line is not a colour: it
  selects the default, \<open>'blue'\<close>, which is in the set.)
\<close>

theorem label_color_valid:
  "(ask_label_color w = (Inr color, w') \<longrightarrow> color \<in> set VALID_COLORS) \<and>
   (create_new_label c board_id w = (r, w'') \<longrightarrow> list_all label_color_ok (new_events w w'')) \<and>
   (stdin w = line # rest \<and> line \<noteq> [] \<and> strip line \<notin> set VALID_COLORS \<longrightarrow>
      ask_label_color w =
        ask_label_color (emit (Out InvalidChoice) ((emit (Ask EnterLabelColor) w)\<lparr>stdin := rest\<rparr>)))"
proof (intro conjI impI)
  assume "ask_label_color w = (Inr color, w')"
  then show "color \<in> set VALID_COLORS" by (rule color_prompt_answer)
next
  assume run: "create_new_label c board_id w = (r, w'')"
  have "triple (list_all label_color_ok) (create_new_label c board_id) (\<lambda>r. list_all label_color_ok)"
    by (rule triple_create_new_label)
       (auto intro!: keeps_list_all simp: label_request_def list_ex_iff)
  from tripleD [OF this run, of "[]"] show "list_all label_color_ok (new_events w w'')" by simp
next
  assume "stdin w = line # rest \<and> line \<noteq> [] \<and> strip line \<notin> set VALID_COLORS"
  then show "ask_label_color w =
        ask_label_color (emit (Out InvalidChoice) ((emit (Ask EnterLabelColor) w)\<lparr>stdin := rest\<rparr>))"
    by (simp add: ask_label_color_def
        Prompt_ask.simps [of EnterLabelColor "Some VALID_COLORS" "Some ''blue''" w])
qed

lemma ask_label_color_run:
  "ask_label_color (label_world [''teal'', ''red'']) =
     (Inr ''red'',
      \<lparr>stdin = [], server = server (label_world []),
       trace = [Ask EnterLabelColor, Out InvalidChoice, Ask EnterLabelColor],
       lib = example_library\<rparr>)"
  by (simp add: ask_label_color_def Prompt_ask.simps strip_def isspace_def VALID_COLORS_def
      emit_def label_world_def reply_world_def Let_def)

lemma create_new_label_color_run:
  "create_new_label c0 (JStr ''B1'') (label_world [''bug'', ''teal'', ''red'']) =
     (Inr (JObj [(''id'', JStr ''L1''), (''name'', JStr ''bug''), (''color'', JStr ''red'')]),
      \<lparr>stdin = [],
       server = server (label_world []),
       trace = [Ask EnterLabelName, Ask EnterLabelColor, Out InvalidChoice, Ask EnterLabelColor,
                label_request c0 (JStr ''B1'') ''bug'' ''red'', Out (NewLabelCreated ''bug'')],
       lib = example_library\<rparr>)"
  by (simp add: create_new_label_def io_bind_def Prompt_ask_no_choices name_loop_unfold
      Prompt_ask.simps create_label_def ask_label_color_def trello_post_result merged_def outcome_of_def
      dict_update_def strip_def isspace_def VALID_COLORS_def console_print_def io_lift_def
      emit_def label_world_def reply_world_def c0_def label_request_def Let_def
      markup_eval ok_response_def)

theorem label_color_valid_witness:
  "ask_label_color (label_world [''teal'', ''red'']) =
     (Inr ''red'',
      \<lparr>stdin = [], server = server (label_world []),
       trace = [Ask EnterLabelColor, Out InvalidChoice, Ask EnterLabelColor],
       lib = example_library\<rparr>) \<and>
   ''red'' \<in> set VALID_COLORS \<and>
   stdin (label_world [''teal'', ''red'']) = ''teal'' # [''red''] \<and> ''teal'' \<noteq> [] \<and>
   strip ''teal'' \<notin> set VALID_COLORS \<and>
   ask_label_color (label_world [''teal'', ''red'']) =
     ask_label_color (emit (Out InvalidChoice)
       ((emit (Ask EnterLabelColor) (label_world [''teal'', ''red'']))\<lparr>stdin := [''red'']\<rparr>)) \<and>
   list_all label_color_ok
     (new_events (label_world [''bug'', ''teal'', ''red''])
        (snd (create_new_label c0 (JStr ''B1'') (label_world [''bug'', ''teal'', ''red'']))))"
proof -
  let ?w = "label_world [''teal'', ''red'']"
  let ?v = "label_world [''bug'', ''teal'', ''red'']"
  note run = ask_label_color_run
  have s: "stdin ?w = ''teal'' # [''red'']" "''teal'' \<noteq> []" "strip ''teal'' \<notin> set VALID_COLORS"
    by (simp_all add: label_world_def reply_world_def strip_def isspace_def VALID_COLORS_def)
  note t = label_color_valid [of ?w "''red''"
      "\<lparr>stdin = [], server = server (label_world []),
        trace = [Ask EnterLabelColor, Out InvalidChoice, Ask EnterLabelColor],
        lib = example_library\<rparr>"
      c0 "JStr ''B1''" _ _ "''teal''" "[''red'']"]
  from t run have a: "''red'' \<in> set VALID_COLORS" by blast
  from t s have b: "ask_label_color ?w =
     ask_label_color (emit (Out InvalidChoice) ((emit (Ask EnterLabelColor) ?w)\<lparr>stdin := [''red'']\<rparr>))"
    by blast
  have run2: "create_new_label c0 (JStr ''B1'') ?v =
      (fst (create_new_label c0 (JStr ''B1'') ?v), snd (create_new_label c0 (JStr ''B1'') ?v))"
    by simp
  from label_color_valid [of ?v _ _ c0 "JStr ''B1''"
      "fst (create_new_label c0 (JStr ''B1'') ?v)" "snd (create_new_label c0 (JStr ''B1'') ?v)"] run2
  have c: "list_all label_color_ok (new_events ?v (snd (create_new_label c0 (JStr ''B1'') ?v)))"
    by blast
  from run a s b c show ?thesis by blast
qed

lemma length_strip_le: "length (strip s) \<le> length s"
proof -
  have "length (strip s) \<le> length (dropWhile isspace s)"
    unfolding strip_def by (metis length_dropWhile_le length_rev)
  also have "\<dots> \<le> length s" by (rule length_dropWhile_le)
  finally show ?thesis .
qed

lemma dropWhile_rev_dropWhile:
  "dropWhile P (rev (dropWhile P (rev (dropWhile P xs)))) = rev (dropWhile P (rev (dropWhile P xs)))"
proof (cases "dropWhile P (rev (dropWhile P xs)) = []")
  case True
  then have "rev (dropWhile P (rev (dropWhile P xs))) = []" by simp
  then show ?thesis by (simp only: dropWhile.simps)
next
  case False
  let ?a = "dropWhile P xs"
  let ?b = "rev (dropWhile P (rev ?a))"
  from False have a: "?a \<noteq> []" by (metis dropWhile.simps(1) rev.simps(1))
  have "rev ?a = takeWhile P (rev ?a) @ dropWhile P (rev ?a)" by simp
  then have "?a = ?b @ rev (takeWhile P (rev ?a))"
    by (metis rev_append rev_rev_ident)
  moreover from False have "?b \<noteq> []" by simp
  ultimately have "hd ?b = hd ?a" by (metis hd_append2)
  moreover from a have "\<not> P (hd ?a)" by (rule hd_dropWhile)
  ultimately have "\<not> P (hd ?b)" by simp
  with \<open>?b \<noteq> []\<close> show ?thesis by (cases ?b) auto
qed

lemma strip_strip [simp]: "strip (strip s) = strip s"
  unfolding strip_def by (simp add: dropWhile_rev_dropWhile)

lemma title_loop_accepts:
  "MIN_CARD_TITLE_LENGTH \<le> length (strip t) \<Longrightarrow> title_loop t w = (Inr t, w)"
  by (simp add: title_loop_unfold [of t w])

lemma title_loop_rejects:
  assumes "length (strip t) < MIN_CARD_TITLE_LENGTH" "stdin w = line # rest"
  shows "title_loop t w =
           title_loop (strip line) ((emit (Ask EnterCardTitle) (emit (Out TitleTooShort) w))\<lparr>stdin := rest\<rparr>)"
  using assms by (simp add: title_loop_unfold [of t w] Prompt_ask_no_choices)

text \<open>What the terminal shows for the titles that were refused.\<close>

definition refusals :: "string list \<Rightarrow> event list" where
  "refusals rejected = concat (map (\<lambda>l. [Out TitleTooShort, Ask EnterCardTitle]) rejected)"

lemma title_loop_closed:
  assumes "list_all (\<lambda>l. length (strip l) < MIN_CARD_TITLE_LENGTH) rejected"
    "MIN_CARD_TITLE_LENGTH \<le> length (strip good)"
    "length (strip t) < MIN_CARD_TITLE_LENGTH"
    "stdin w = rejected @ good # rest"
  shows "title_loop t w =
           (Inr (strip good),
            w\<lparr>stdin := rest, trace := trace w @ refusals (t # rejected)\<rparr>)"
  using assms
proof (induction rejected arbitrary: t w)
  case Nil
  then show ?case
    by (simp add: title_loop_rejects [of t w good rest] title_loop_accepts refusals_def emit_def)
next
  case (Cons l ls)
  let ?w1 = "(emit (Ask EnterCardTitle) (emit (Out TitleTooShort) w))\<lparr>stdin := ls @ good # rest\<rparr>"
  from Cons.prems have "title_loop t w = title_loop (strip l) ?w1"
    by (simp add: title_loop_rejects [of t w l "ls @ good # rest"])
  also from Cons.prems
  have "\<dots> = (Inr (strip good), ?w1\<lparr>stdin := rest, trace := trace ?w1 @ refusals (strip l # ls)\<rparr>)"
    by (intro Cons.IH) simp_all
  finally show ?case by (simp add: refusals_def emit_def)
qed

lemma get_card_details_closed:
  assumes "list_all (\<lambda>l. length (strip l) < MIN_CARD_TITLE_LENGTH) rejected"
    "MIN_CARD_TITLE_LENGTH \<le> length (strip good)"
    "stdin w = rejected @ good # description # rest"
  shows "get_card_details w =
           (Inr (strip good, strip description),
            w\<lparr>stdin := rest,
              trace := trace w @ [Out AddCardDetails, Ask EnterCardTitle] @ refusals rejected @
                       [Ask EnterCardDescription]\<rparr>)"
proof (cases rejected)
  case Nil
  with assms show ?thesis
    by (simp add: get_card_details_def io_bind_def console_print_def Prompt_ask_no_choices
        title_loop_accepts io_lift_def refusals_def emit_def)
next
  case (Cons l ls)
  let ?w1 = "(emit (Ask EnterCardTitle) (emit (Out AddCardDetails) w))\<lparr>stdin := ls @ good # description # rest\<rparr>"
  from assms Cons
  have "title_loop (strip l) ?w1 =
          (Inr (strip good),
           ?w1\<lparr>stdin := description # rest, trace := trace ?w1 @ refusals (strip l # ls)\<rparr>)"
    by (intro title_loop_closed) simp_all
  with assms Cons show ?thesis
    by (simp add: get_card_details_def io_bind_def console_print_def Prompt_ask_no_choices
        io_lift_def refusals_def emit_def)
qed

lemma get_card_details_title:
  assumes "get_card_details w = (Inr (title, desc), w')"
  shows "MIN_CARD_TITLE_LENGTH \<le> length (strip title)"
proof -
  have "triple (\<lambda>evs. True) get_card_details
          (\<lambda>r evs. \<forall>t d. r = Inr (t, d) \<longrightarrow> MIN_CARD_TITLE_LENGTH \<le> length (strip t))"
    unfolding get_card_details_def
    apply (rule triple_bind [where B = "\<lambda>r evs. True"])
      apply (rule triple_console_print, simp, simp)
     apply simp
    apply (rule triple_bind [where B = "\<lambda>r evs. True"])
      apply (rule triple_Prompt_ask_no_choices, simp)
     apply simp
    apply (rule triple_bind [OF triple_title_loop [where I = "\<lambda>evs. True"]])
       apply (simp add: keeps_def)
      apply (simp add: keeps_def)
     apply simp
    apply (rule triple_bind [where B = "\<lambda>r evs. MIN_CARD_TITLE_LENGTH \<le> length (strip x)" for x])
      apply (rule triple_Prompt_ask_no_choices, simp)
     apply simp
    apply (rule triple_lift, simp)
    done
  from tripleD [OF this assms] show ?thesis by simp
qed

lemma title_loop_eof:
  assumes "stdin w = ls" "list_all (\<lambda>l. length (strip l) < MIN_CARD_TITLE_LENGTH) ls"
    "length (strip t) < MIN_CARD_TITLE_LENGTH"
  shows "fst (title_loop t w) = Inl EOFError"
  using assms
proof (induction ls arbitrary: t w)
  case Nil
  then show ?case by (simp add: title_loop_unfold [of t w] Prompt_ask_no_choices)
next
  case (Cons l ls)
  let ?w1 = "(emit (Ask EnterCardTitle) (emit (Out TitleTooShort) w))\<lparr>stdin := ls\<rparr>"
  from Cons.prems have "title_loop t w = title_loop (strip l) ?w1"
    by (simp add: title_loop_rejects [of t w l ls])
  moreover from Cons.prems have "fst (title_loop (strip l) ?w1) = Inl EOFError"
    by (intro Cons.IH) simp_all
  ultimately show ?case by simp
qed

lemma get_card_details_eof:
  assumes "list_all (\<lambda>l. length (strip l) < MIN_CARD_TITLE_LENGTH) (stdin w)"
  shows "fst (get_card_details w) = Inl EOFError"
proof (cases "stdin w")
  case Nil
  then show ?thesis
    by (simp add: get_card_details_def io_bind_def console_print_def Prompt_ask_no_choices)
next
  case (Cons l ls)
  let ?w1 = "(emit (Ask EnterCardTitle) (emit (Out AddCardDetails) w))\<lparr>stdin := ls\<rparr>"
  from assms Cons have "fst (title_loop (strip l) ?w1) = Inl EOFError"
    by (intro title_loop_eof [where ls = ls]) simp_all
  then obtain w2 where "title_loop (strip l) ?w1 = (Inl EOFError, w2)"
    by (cases "title_loop (strip l) ?w1") auto
  with Cons show ?thesis
    by (simp add: get_card_details_def io_bind_def console_print_def Prompt_ask_no_choices)
qed

text \<open>
  Claim C3. Whatever the user types, \<open>get_card_details\<close> returns only a title of at least
  \<open>MIN_CARD_TITLE_LENGTH\<close> characters (also after stripping). Every title shorter than
  that once stripped, as the loop measures it, is rejected and the title is asked again:
  the loop prints the error message, shows the title prompt and goes on with the next
  line. So when the lines typed are some titles that are too short, then a title that is
  long enough, then a description, the result is that title and that description, and
  the terminal has shown the error message and the title prompt once for each rejected
  line; and when every line is too short, no title is returned: the input ends at the
  title prompt.
\<close>

theorem card_title_min_length:
  "(get_card_details w = (Inr (title, desc), w') \<longrightarrow>
      MIN_CARD_TITLE_LENGTH \<le> length (strip title) \<and> MIN_CARD_TITLE_LENGTH \<le> length title) \<and>
   (length (strip t) < MIN_CARD_TITLE_LENGTH \<and> stdin w = line # lines \<longrightarrow>
      title_loop t w =
        title_loop (strip line)
          ((emit (Ask EnterCardTitle) (emit (Out TitleTooShort) w))\<lparr>stdin := lines\<rparr>)) \<and>
   (list_all (\<lambda>l. length (strip l) < MIN_CARD_TITLE_LENGTH) rejected \<and>
    MIN_CARD_TITLE_LENGTH \<le> length (strip good) \<and>
    stdin w = rejected @ good # description # rest \<longrightarrow>
      get_card_details w =
        (Inr (strip good, strip description),
         w\<lparr>stdin := rest,
           trace := trace w @ [Out AddCardDetails, Ask EnterCardTitle] @ refusals rejected @
                    [Ask EnterCardDescription]\<rparr>)) \<and>
   (list_all (\<lambda>l. length (strip l) < MIN_CARD_TITLE_LENGTH) (stdin w) \<longrightarrow>
      fst (get_card_details w) = Inl EOFError)"
proof (intro conjI impI)
  assume run: "get_card_details w = (Inr (title, desc), w')"
  then show "MIN_CARD_TITLE_LENGTH \<le> length (strip title)" by (rule get_card_details_title)
  with length_strip_le [of title] show "MIN_CARD_TITLE_LENGTH \<le> length title" by simp
next
  assume "length (strip t) < MIN_CARD_TITLE_LENGTH \<and> stdin w = line # lines"
  then show "title_loop t w =
        title_loop (strip line)
          ((emit (Ask EnterCardTitle) (emit (Out TitleTooShort) w))\<lparr>stdin := lines\<rparr>)"
    by (simp add: title_loop_rejects)
next
  assume "list_all (\<lambda>l. length (strip l) < MIN_CARD_TITLE_LENGTH) rejected \<and>
    MIN_CARD_TITLE_LENGTH \<le> length (strip good) \<and>
    stdin w = rejected @ good # description # rest"
  then show "get_card_details w =
        (Inr (strip good, strip description),
         w\<lparr>stdin := rest,
           trace := trace w @ [Out AddCardDetails, Ask EnterCardTitle] @ refusals rejected @
                    [Ask EnterCardDescription]\<rparr>)"
    by (intro get_card_details_closed) simp_all
next
  assume "list_all (\<lambda>l. length (strip l) < MIN_CARD_TITLE_LENGTH) (stdin w)"
  then show "fst (get_card_details w) = Inl EOFError"
    by (rule get_card_details_eof)
qed

definition plain_world :: "string list \<Rightarrow> world" where
  "plain_world ls = reply_world ls (plain_response 200 ''OK'')"

theorem card_title_min_length_witness:
  "get_card_details (plain_world [''  a  '', ''ab'', ''Test Card'', ''details'', ''F'']) =
     (Inr (''Test Card'', ''details''),
      (plain_world [''  a  '', ''ab'', ''Test Card'', ''details'', ''F''])
        \<lparr>stdin := [''F''],
          trace := [Out AddCardDetails, Ask EnterCardTitle, Out TitleTooShort, Ask EnterCardTitle,
                    Out TitleTooShort, Ask EnterCardTitle, Ask EnterCardDescription]\<rparr>) \<and>
   MIN_CARD_TITLE_LENGTH \<le> length ''Test Card'' \<and>
   list_all (\<lambda>l. length (strip l) < MIN_CARD_TITLE_LENGTH) [''  a  '', ''ab''] \<and>
   title_loop ''a'' (plain_world [''ab'', ''Test Card'']) =
     title_loop ''ab''
       ((emit (Ask EnterCardTitle) (emit (Out TitleTooShort) (plain_world [''ab'', ''Test Card''])))
          \<lparr>stdin := [''Test Card'']\<rparr>) \<and>
   fst (get_card_details (plain_world [''  a  '', ''ab''])) = Inl EOFError"
proof -
  let ?w = "plain_world [''  a  '', ''ab'', ''Test Card'', ''details'', ''F'']"
  have h: "list_all (\<lambda>l. length (strip l) < MIN_CARD_TITLE_LENGTH) [''  a  '', ''ab''] \<and>
      MIN_CARD_TITLE_LENGTH \<le> length (strip ''Test Card'') \<and>
      stdin ?w = [''  a  '', ''ab''] @ ''Test Card'' # ''details'' # [''F'']"
    by (simp add: MIN_CARD_TITLE_LENGTH_def strip_def isspace_def plain_world_def reply_world_def)
  have s: "strip ''Test Card'' = ''Test Card''" "strip ''details'' = ''details''"
    "strip ''ab'' = ''ab''"
    by (simp_all add: strip_def isspace_def)
  from card_title_min_length [of ?w _ _ _ _ _ _ "[''  a  '', ''ab'']" "''Test Card''" "''details''" "[''F'']"] h
  have run: "get_card_details ?w =
      (Inr (strip ''Test Card'', strip ''details''),
       ?w\<lparr>stdin := [''F''],
         trace := trace ?w @ [Out AddCardDetails, Ask EnterCardTitle] @ refusals [''  a  '', ''ab''] @
                  [Ask EnterCardDescription]\<rparr>)"
    by blast
  have tr: "trace ?w = []" by (simp add: plain_world_def reply_world_def)
  from run have a: "get_card_details ?w =
     (Inr (''Test Card'', ''details''),
      ?w\<lparr>stdin := [''F''],
          trace := [Out AddCardDetails, Ask EnterCardTitle, Out TitleTooShort, Ask EnterCardTitle,
                    Out TitleTooShort, Ask EnterCardTitle, Ask EnterCardDescription]\<rparr>)"
    by (simp add: s tr refusals_def)
  from card_title_min_length [of ?w "''Test Card''" "''details''"] a
  have b: "MIN_CARD_TITLE_LENGTH \<le> length ''Test Card''" by blast
  have st: "length (strip ''a'') < MIN_CARD_TITLE_LENGTH \<and>
      stdin (plain_world [''ab'', ''Test Card'']) = ''ab'' # [''Test Card'']"
    by (simp add: MIN_CARD_TITLE_LENGTH_def strip_def isspace_def plain_world_def reply_world_def)
  from card_title_min_length [of "plain_world [''ab'', ''Test Card'']" _ _ _ "''a''" "''ab''"
      "[''Test Card'']"] st
  have r: "title_loop ''a'' (plain_world [''ab'', ''Test Card'']) =
     title_loop (strip ''ab'')
       ((emit (Ask EnterCardTitle) (emit (Out TitleTooShort) (plain_world [''ab'', ''Test Card''])))
          \<lparr>stdin := [''Test Card'']\<rparr>)"
    by blast
  have e: "list_all (\<lambda>l. length (strip l) < MIN_CARD_TITLE_LENGTH) (stdin (plain_world [''  a  '', ''ab'']))"
    by (simp add: MIN_CARD_TITLE_LENGTH_def strip_def isspace_def plain_world_def reply_world_def)
  from card_title_min_length [of "plain_world [''  a  '', ''ab'']"] e
  have c: "fst (get_card_details (plain_world [''  a  '', ''ab''])) = Inl EOFError" by blast
  from h have d: "list_all (\<lambda>l. length (strip l) < MIN_CARD_TITLE_LENGTH) [''  a  '', ''ab'']" by blast
  from a b c d r [unfolded s] show ?thesis by blast
qed

section \<open>The label menu\<close>






lemma str_nat_1 [simp]: "str_nat 1 = ''1''" "str_nat (Suc 0) = ''1''"
  by (simp_all add: str_nat.simps)

lemma enumerate1_single [simp]: "enumerate1 [x] = [(''1'', x)]"
  by (simp add: enumerate1_def)

lemma length_enumerate1 [simp]: "length (enumerate1 xs) = length xs"
  by (simp add: enumerate1_def del: upt_Suc)











lemma upper_F [simp]: "upper ''F'' = ''F''"
  by (simp add: upper_def upper_char_def)

lemma select_labels_loop_finish:
  assumes opts: "create_label_options label_choices = Inr label_options"
    and shown: "print_error (lib w) (LabelPanel label_options) = None"
    and inp: "stdin w = line # rest" "line = [] \<or> upper (strip line) = ''F''"
  shows "select_labels_loop c board_id label_choices selected_label_ids w =
           (Inr selected_label_ids,
            (emit (Ask SelectLabel)
               (emit (Out (LabelPanel label_options)) (emit (Out Blank) w)))\<lparr>stdin := rest\<rparr>)"
  using opts shown inp
  by (cases "line = []")
     (simp_all add: select_labels_loop_unfold [of c board_id label_choices selected_label_ids w]
      Prompt_ask_no_choices)








section \<open>The top-level loop\<close>

lemma lower_Nil [simp]: "lower [] = []"
  by (simp add: lower_def)

























subsection \<open>A run that creates one card\<close>

text \<open>The request \<open>create_card\<close> sends.\<close>

definition card_request :: "creds \<Rightarrow> json \<Rightarrow> string \<Rightarrow> string \<Rightarrow> string \<Rightarrow> event" where
  "card_request c list_id name desc label_ids =
     Http POST TRELLO_API_BASE_URL Cards
       ([(''key'', JStr (API_KEY c)), (''token'', JStr (TOKEN c)), (''idList'', list_id),
         (''name'', JStr name), (''desc'', JStr desc)] @
        (if label_ids = [] then [] else [(''idLabels'', JStr label_ids)]))"

lemma create_card_result:
  "create_card c list_id name desc label_ids w =
     (outcome_of (server w (trace w) POST TRELLO_API_BASE_URL Cards
        ([(''key'', JStr (API_KEY c)), (''token'', JStr (TOKEN c)), (''idList'', list_id),
          (''name'', JStr name), (''desc'', JStr desc)] @
         (if label_ids = [] then [] else [(''idLabels'', JStr label_ids)]))),
      emit (card_request c list_id name desc label_ids) w)"
  by (simp add: create_card_def trello_post_result merged_def dict_update_def card_request_def Let_def)

fun is_card_request :: "event \<Rightarrow> bool" where
  "is_card_request (Http m base ep d) = (m = POST \<and> ep = Cards)"
| "is_card_request _ = False"

definition get_request :: "creds \<Rightarrow> endpoint \<Rightarrow> string \<Rightarrow> event" where
  "get_request c ep wanted =
     Http GET TRELLO_API_BASE_URL ep
       [(''key'', JStr (API_KEY c)), (''token'', JStr (TOKEN c)), (''fields'', JStr wanted)]"

lemma merged_fields:
  "Http GET TRELLO_API_BASE_URL ep (merged c (Some [(''fields'', JStr wanted)])) =
     get_request c ep wanted"
  by (simp add: merged_def dict_update_def get_request_def)

lemma strip_1 [simp]: "strip ''1'' = ''1''"
  by (simp add: strip_def isspace_def)

lemma select_board_single:
  assumes "\<And>tr d. outcome_of (server v tr GET TRELLO_API_BASE_URL MembersMeBoards d) =
                     Inr (JArr [JObj board])"
    and "map_of board ''name'' = Some board_name" "map_of board ''id'' = Some board_id"
    and "print_error (lib v) (BoardPanel [(''1'', board_name)]) = None"
      "print_error (lib v) (SelectedBoard board_name) = None"
    and "stdin v = ''1'' # rest"
  shows "select_board c v =
           (Inr board_id,
            v\<lparr>stdin := rest,
              trace := trace v @
                [get_request c MembersMeBoards ''name,id'',
                 Out (BoardPanel [(''1'', board_name)]), Ask SelectBoard,
                 Out (SelectedBoard board_name)]\<rparr>)"
  using assms
  by (simp add: select_board_def get_boards_def io_bind_def console_print_def
      trello_get_result io_lift_def name_line_def
      Prompt_ask.simps [of SelectBoard] dict_get_def Let_def merged_fields emit_def)

lemma select_list_single:
  assumes "\<And>tr d. outcome_of (server v tr GET TRELLO_API_BASE_URL (BoardLists board_id) d) =
                     Inr (JArr [JObj lst])"
    and "map_of lst ''name'' = Some list_name" "map_of lst ''id'' = Some list_id"
    and "print_error (lib v) (ListPanel [(''1'', list_name)]) = None"
      "print_error (lib v) (SelectedColumn list_name) = None"
    and "stdin v = ''1'' # rest"
  shows "select_list c board_id v =
           (Inr list_id,
            v\<lparr>stdin := rest,
              trace := trace v @
                [get_request c (BoardLists board_id) ''name,id'',
                 Out (ListPanel [(''1'', list_name)]), Ask SelectColumn,
                 Out (SelectedColumn list_name)]\<rparr>)"
  using assms
  by (simp add: select_list_def get_lists_def io_bind_def console_print_def
      trello_get_result io_lift_def name_line_def
      Prompt_ask.simps [of SelectColumn] dict_get_def Let_def merged_fields emit_def)

lemma select_labels_none:
  assumes "\<And>tr d. outcome_of (server v tr GET TRELLO_API_BASE_URL (BoardLabels board_id) d) =
                     Inr (JArr labels)"
    and "create_label_options (enumerate1 labels) = Inr label_options"
    and "print_error (lib v) (LabelPanel label_options) = None"
    and "stdin v = finish # rest" "finish = [] \<or> upper (strip finish) = ''F''"
  shows "select_labels c board_id v =
           (Inr [],
            v\<lparr>stdin := rest,
              trace := trace v @
                [get_request c (BoardLabels board_id) ''name,color,id'',
                 Out Blank, Out (LabelPanel label_options), Ask SelectLabel]\<rparr>)"
proof -
  let ?v1 = "emit (get_request c (BoardLabels board_id) ''name,color,id'') v"
  have "select_labels_loop c board_id (enumerate1 labels) [] ?v1 =
          (Inr [], (emit (Ask SelectLabel)
             (emit (Out (LabelPanel label_options)) (emit (Out Blank) ?v1)))\<lparr>stdin := rest\<rparr>)"
    by (rule select_labels_loop_finish [OF assms(2) _ _ assms(5)]) (simp_all add: assms(3) assms(4))
  with assms(1) show ?thesis
    by (simp add: select_labels_def get_labels_def io_bind_def trello_get_result
        io_lift_def merged_fields emit_def)
qed

lemma test_card_shown: "print_error L (CardAdded ''Test Card'') = None"
  by (simp add: print_error_def markup_error_def take_tag_def tag_start_def in_tag_def
      is_backslash_def apply_tag_open apply_tag_close strip_def isspace_def)

lemma Confirm_ask_decline:
  assumes "stdin v = line # rest" "line = [] \<or> lower (strip line) = ''n''"
  shows "Confirm_ask p False v = (Inr False, (emit (Ask p) v)\<lparr>stdin := rest\<rparr>)"
  using assms by (auto simp: Confirm_ask.simps [of p False v] Let_def)


lemma single_run:
  assumes boards: "\<And>tr d. outcome_of (server w tr GET TRELLO_API_BASE_URL MembersMeBoards d) =
                     Inr (JArr [JObj board])"
    and board: "map_of board ''name'' = Some board_name" "map_of board ''id'' = Some board_id"
      "truthy board_id"
    and lists: "\<And>tr d. outcome_of (server w tr GET TRELLO_API_BASE_URL (BoardLists board_id) d) =
                     Inr (JArr [JObj lst])"
    and lst: "map_of lst ''name'' = Some list_name" "map_of lst ''id'' = Some list_id"
      "truthy list_id"
    and labels: "\<And>tr d. outcome_of (server w tr GET TRELLO_API_BASE_URL (BoardLabels board_id) d) =
                     Inr (JArr labels)"
      "create_label_options (enumerate1 labels) = Inr label_options"
    and card: "\<And>tr d. outcome_of (server w tr POST TRELLO_API_BASE_URL Cards d) =
                     Inr card_json"
    and shown: "print_error (lib w) (BoardPanel [(''1'', board_name)]) = None"
      "print_error (lib w) (SelectedBoard board_name) = None"
      "print_error (lib w) (ListPanel [(''1'', list_name)]) = None"
      "print_error (lib w) (SelectedColumn list_name) = None"
      "print_error (lib w) (LabelPanel label_options) = None"
    and inp: "stdin w = [''1'', ''1'', ''Test Card'', description, finish, no_comment, no_more]"
    and answers: "finish = [] \<or> upper (strip finish) = ''F''"
      "no_comment = [] \<or> lower (strip no_comment) = ''n''"
      "no_more = [] \<or> lower (strip no_more) = ''n''"
  shows "add_card_body c w =
    (Inr Break,
     w\<lparr>stdin := [],
       trace := trace w @
         [Out Blank,
          get_request c MembersMeBoards ''name,id'',
          Out (BoardPanel [(''1'', board_name)]), Ask SelectBoard, Out (SelectedBoard board_name),
          get_request c (BoardLists board_id) ''name,id'',
          Out (ListPanel [(''1'', list_name)]), Ask SelectColumn, Out (SelectedColumn list_name),
          Out AddCardDetails, Ask EnterCardTitle, Ask EnterCardDescription,
          get_request c (BoardLabels board_id) ''name,color,id'',
          Out Blank, Out (LabelPanel label_options), Ask SelectLabel,
          Out NoLabelsSelected,
          card_request c list_id ''Test Card'' (strip description) [],
          Ask AddCommentOption, Out (CardAdded ''Test Card''), Ask AddAnotherCard]\<rparr>)"
proof -
  define v1 where "v1 = emit (Out Blank) w"
  define v2 where "v2 = v1\<lparr>stdin := [''1'', ''Test Card'', description, finish, no_comment, no_more],
      trace := trace v1 @ [get_request c MembersMeBoards ''name,id'',
        Out (BoardPanel [(''1'', board_name)]), Ask SelectBoard, Out (SelectedBoard board_name)]\<rparr>"
  define v3 where "v3 = v2\<lparr>stdin := [''Test Card'', description, finish, no_comment, no_more],
      trace := trace v2 @ [get_request c (BoardLists board_id) ''name,id'',
        Out (ListPanel [(''1'', list_name)]), Ask SelectColumn, Out (SelectedColumn list_name)]\<rparr>"
  define v4 where "v4 = v3\<lparr>stdin := [finish, no_comment, no_more],
      trace := trace v3 @ [Out AddCardDetails, Ask EnterCardTitle] @ refusals [] @
        [Ask EnterCardDescription]\<rparr>"
  define v5 where "v5 = v4\<lparr>stdin := [no_comment, no_more],
      trace := trace v4 @ [get_request c (BoardLabels board_id) ''name,color,id'',
        Out Blank, Out (LabelPanel label_options), Ask SelectLabel]\<rparr>"
  define v6 where "v6 = emit (Out NoLabelsSelected) v5"
  define v7 where "v7 = emit (card_request c list_id ''Test Card'' (strip description) []) v6"
  define v8 where "v8 = (emit (Ask AddCommentOption) v7)\<lparr>stdin := [no_more]\<rparr>"
  define v9 where "v9 = emit (Out (CardAdded ''Test Card'')) v8"
  define v10 where "v10 = (emit (Ask AddAnotherCard) v9)\<lparr>stdin := []\<rparr>"
  note defs = v1_def v2_def v3_def v4_def v5_def v6_def v7_def v8_def v9_def v10_def
  have t: "MIN_CARD_TITLE_LENGTH \<le> length (strip ''Test Card'')" "strip ''Test Card'' = ''Test Card''"
    by (simp_all add: MIN_CARD_TITLE_LENGTH_def strip_def isspace_def)
  have sb: "select_board c v1 = (Inr board_id, v2)"
    unfolding v2_def
    by (rule select_board_single [where board = board])
       (simp_all add: v1_def boards board inp shown)
  have sl: "select_list c board_id v2 = (Inr list_id, v3)"
    unfolding v3_def
    by (rule select_list_single [where lst = lst])
       (simp_all add: v2_def v1_def lists lst shown)
  have gd: "get_card_details v3 = (Inr (''Test Card'', strip description), v4)"
    using get_card_details_closed [of "[]" "''Test Card''" v3 description "[finish, no_comment, no_more]"] t
    by (simp add: v4_def) (simp add: v3_def)
  have lb: "select_labels c board_id v4 = (Inr [], v5)"
    unfolding v5_def
    by (rule select_labels_none [where labels = labels, OF _ _ _ _ answers(1)])
       (simp_all add: v4_def v3_def v2_def v1_def labels shown)
  have cc: "create_card c list_id ''Test Card'' (strip description) [] v6 = (Inr card_json, v7)"
    by (simp add: create_card_result v7_def defs card)
  have ca: "Confirm_ask AddCommentOption False v7 = (Inr False, v8)"
    unfolding v8_def
    by (rule Confirm_ask_decline [OF _ answers(2)]) (simp add: defs)
  have cm: "Confirm_ask AddAnotherCard False v9 = (Inr False, v10)"
    unfolding v10_def
    by (rule Confirm_ask_decline [OF _ answers(3)]) (simp add: defs)
  have "add_card_body c w = (Inr Break, v10)"
    using board(3) lst(3)
    by (simp add: add_card_body_def io_bind_def console_print_def io_lift_def Let_def
        v1_def [symmetric] sb sl gd lb v6_def [symmetric] str_join_def cc ca
        v9_def [symmetric] cm test_card_shown)
  also have "v10 = w\<lparr>stdin := [],
       trace := trace w @
         [Out Blank,
          get_request c MembersMeBoards ''name,id'',
          Out (BoardPanel [(''1'', board_name)]), Ask SelectBoard, Out (SelectedBoard board_name),
          get_request c (BoardLists board_id) ''name,id'',
          Out (ListPanel [(''1'', list_name)]), Ask SelectColumn, Out (SelectedColumn list_name),
          Out AddCardDetails, Ask EnterCardTitle, Ask EnterCardDescription,
          get_request c (BoardLabels board_id) ''name,color,id'',
          Out Blank, Out (LabelPanel label_options), Ask SelectLabel,
          Out NoLabelsSelected,
          card_request c list_id ''Test Card'' (strip description) [],
          Ask AddCommentOption, Out (CardAdded ''Test Card''), Ask AddAnotherCard]\<rparr>"
    by (simp add: defs emit_def refusals_def)
  finally show ?thesis .
qed


fun is_request :: "event \<Rightarrow> bool" where
  "is_request (Http m base ep d) = True"
| "is_request _ = False"

text \<open>
  Claim C2. The client returns one board and one list (each with a name and a truthy id)
  and any labels the menu can list, and the user is shown them: the board panel, the
  column panel, the two lines that confirm the selection and the label panel render. The
  user picks board \<open>1\<close> and list \<open>1\<close>, enters the title \<open>Test Card\<close> and a description,
  finishes the label selection at once, declines the comment and declines another card.
  Then \<open>add_card\<close> returns, exactly one card-creation request was sent, its name is
  \<open>Test Card\<close> and it was built by \<open>create_card\<close> from the empty string of label ids: its
  body has no \<open>idLabels\<close> field. The requests of the whole run are the boards, the lists,
  the labels and that card.
\<close>

theorem single_card_created:
  assumes boards: "\<And>tr d. outcome_of (server w tr GET TRELLO_API_BASE_URL MembersMeBoards d) =
                     Inr (JArr [JObj board])"
    and board: "map_of board ''name'' = Some board_name" "map_of board ''id'' = Some board_id"
      "truthy board_id"
    and lists: "\<And>tr d. outcome_of (server w tr GET TRELLO_API_BASE_URL (BoardLists board_id) d) =
                     Inr (JArr [JObj lst])"
    and lst: "map_of lst ''name'' = Some list_name" "map_of lst ''id'' = Some list_id"
      "truthy list_id"
    and labels: "\<And>tr d. outcome_of (server w tr GET TRELLO_API_BASE_URL (BoardLabels board_id) d) =
                     Inr (JArr labels)"
      "create_label_options (enumerate1 labels) = Inr label_options"
    and card: "\<And>tr d. outcome_of (server w tr POST TRELLO_API_BASE_URL Cards d) =
                     Inr card_json"
    and shown: "print_error (lib w) (BoardPanel [(''1'', board_name)]) = None"
      "print_error (lib w) (SelectedBoard board_name) = None"
      "print_error (lib w) (ListPanel [(''1'', list_name)]) = None"
      "print_error (lib w) (SelectedColumn list_name) = None"
      "print_error (lib w) (LabelPanel label_options) = None"
    and inp: "stdin w = [''1'', ''1'', ''Test Card'', description, finish, no_comment, no_more]"
    and answers: "finish = [] \<or> upper (strip finish) = ''F''"
      "no_comment = [] \<or> lower (strip no_comment) = ''n''"
      "no_more = [] \<or> lower (strip no_more) = ''n''"
  shows "fst (add_card c w) = Inr () \<and>
         filter is_card_request (new_events w (snd (add_card c w))) =
           [card_request c list_id ''Test Card'' (strip description) []] \<and>
         filter is_request (new_events w (snd (add_card c w))) =
           [get_request c MembersMeBoards ''name,id'',
            get_request c (BoardLists board_id) ''name,id'',
            get_request c (BoardLabels board_id) ''name,color,id'',
            card_request c list_id ''Test Card'' (strip description) []] \<and>
         card_request c list_id ''Test Card'' (strip description) [] =
           Http POST TRELLO_API_BASE_URL Cards
             [(''key'', JStr (API_KEY c)), (''token'', JStr (TOKEN c)), (''idList'', list_id),
              (''name'', JStr ''Test Card''), (''desc'', JStr (strip description))]"
proof -
  note body = single_run [OF assms]
  then have "add_card c w = (Inr (), snd (add_card_body c w))"
    by (simp add: add_card.simps [of c w])
  with body show ?thesis
    by (simp add: new_events_def get_request_def card_request_def)
qed

definition demo_server :: "event list \<Rightarrow> meth \<Rightarrow> string \<Rightarrow> endpoint \<Rightarrow> pydict \<Rightarrow> string + response" where
  "demo_server tr m base ep d =
     (case ep of
        MembersMeBoards \<Rightarrow>
          Inr (ok_response (JArr [JObj [(''id'', JStr ''B1''), (''name'', JStr ''Board'')]]))
      | BoardLists board_id \<Rightarrow>
          Inr (ok_response (JArr [JObj [(''id'', JStr ''L1''), (''name'', JStr ''To Do'')]]))
      | BoardLabels board_id \<Rightarrow> Inr (plain_response 200 ''OK'')
      | Cards \<Rightarrow>
          Inr (ok_response (JObj [(''id'', JStr ''C1''), (''name'', JStr ''Test Card'')]))
      | _ \<Rightarrow> Inl ''Connection refused'')"

definition demo_world :: world where
  "demo_world =
     \<lparr>stdin = [''1'', ''1'', ''Test Card'', [], ''F'', ''n'', ''n''], server = demo_server,
      trace = [], lib = example_library\<rparr>"

lemma demo_shown:
  "print_error example_library (BoardPanel [(''1'', JStr ''Board'')]) = None"
  "print_error example_library (SelectedBoard (JStr ''Board'')) = None"
  "print_error example_library (ListPanel [(''1'', JStr ''To Do'')]) = None"
  "print_error example_library (SelectedColumn (JStr ''To Do'')) = None"
  "print_error example_library (LabelPanel [CreateNewLabelLine, FinishLine]) = None"
  by (simp_all add: markup_eval)

theorem single_card_created_witness:
  "stdin demo_world = [''1'', ''1'', ''Test Card'', [], ''F'', ''n'', ''n''] \<and>
   print_error (lib demo_world) (BoardPanel [(''1'', JStr ''Board'')]) = None \<and>
   print_error (lib demo_world) (SelectedBoard (JStr ''Board'')) = None \<and>
   print_error (lib demo_world) (ListPanel [(''1'', JStr ''To Do'')]) = None \<and>
   print_error (lib demo_world) (SelectedColumn (JStr ''To Do'')) = None \<and>
   print_error (lib demo_world) (LabelPanel [CreateNewLabelLine, FinishLine]) = None \<and>
   fst (add_card c0 demo_world) = Inr () \<and>
   filter is_card_request (new_events demo_world (snd (add_card c0 demo_world))) =
     [Http POST TRELLO_API_BASE_URL Cards
        [(''key'', JStr ''key''), (''token'', JStr ''token''), (''idList'', JStr ''L1''),
         (''name'', JStr ''Test Card''), (''desc'', JStr [])]]"
proof -
  have inp: "stdin demo_world = [''1'', ''1'', ''Test Card'', [], ''F'', ''n'', ''n'']"
    by (simp add: demo_world_def)
  have a: "[] = [] \<or> upper (strip ''F'') = ''F''" "''n'' = [] \<or> lower (strip ''n'') = ''n''"
    by (simp_all add: strip_def isspace_def lower_def lower_char_def)
  have opts: "create_label_options (enumerate1 []) = Inr [CreateNewLabelLine, FinishLine]"
    by (simp add: create_label_options_def enumerate1_def)
  have sh: "print_error (lib demo_world) (BoardPanel [(''1'', JStr ''Board'')]) = None"
    "print_error (lib demo_world) (SelectedBoard (JStr ''Board'')) = None"
    "print_error (lib demo_world) (ListPanel [(''1'', JStr ''To Do'')]) = None"
    "print_error (lib demo_world) (SelectedColumn (JStr ''To Do'')) = None"
    "print_error (lib demo_world) (LabelPanel [CreateNewLabelLine, FinishLine]) = None"
    by (simp_all add: demo_world_def demo_shown)
  have t: "fst (add_card c0 demo_world) = Inr () \<and>
      filter is_card_request (new_events demo_world (snd (add_card c0 demo_world))) =
        [card_request c0 (JStr ''L1'') ''Test Card'' (strip []) []]"
    using single_card_created [of demo_world "[(''id'', JStr ''B1''), (''name'', JStr ''Board'')]"
        "JStr ''Board''" "JStr ''B1''" "[(''id'', JStr ''L1''), (''name'', JStr ''To Do'')]"
        "JStr ''To Do''" "JStr ''L1''" "[]" "[CreateNewLabelLine, FinishLine]"
        "JObj [(''id'', JStr ''C1''), (''name'', JStr ''Test Card'')]" "[]" "''F''" "''n''" "''n''" c0,
        OF _ _ _ _ _ _ _ _ _ opts _ sh inp _ a(2) a(2)]
    by (simp add: demo_world_def demo_server_def upper_def upper_char_def strip_def isspace_def
        outcome_of_def ok_response_def plain_response_def)
  with inp sh show ?thesis by (simp add: card_request_def c0_def)
qed

subsection \<open>The order of the steps of one pass\<close>

lemma triple_select_labels_loop:
  assumes k1: "keeps I (Out Blank)" and k2: "\<And>opts. keeps I (Out (LabelPanel opts))"
    and k3: "keeps I (Ask SelectLabel)" and k4: "\<And>n. keeps I (Out (LabelSelected n))"
    and k5: "\<And>s. keeps I (Out (InvalidSelection s))"
    and new: "triple I (create_new_label c board_id) (\<lambda>r. I)"
  shows "triple I (select_labels_loop c board_id label_choices selected_label_ids) (\<lambda>r. I)"
proof -
  have "I (pre @ new_events w w')"
    if "select_labels_loop c board_id label_choices selected_label_ids w = (r, w')" "I pre"
    for w r w' pre
    using that
  proof (induction label_choices selected_label_ids w arbitrary: pre
      rule: select_labels_loop_induct [where c = c and board_id = board_id])
    case (1 label_choices selected_label_ids w)
    note run = "1.prems"(1) and pre = "1.prems"(2)
    note unf = select_labels_loop_unfold [of c board_id label_choices selected_label_ids w]
    have i0: "I (pre @ [Out Blank])" by (rule keepsD [OF k1 pre])
    show ?case
    proof (cases "create_label_options label_choices")
      case (Inl e)
      with run have "w' = emit (Out Blank) w" by (auto simp: unf)
      with i0 show ?thesis by simp
    next
      case (Inr label_options)
      show ?thesis
      proof (cases "print_error (lib w) (LabelPanel label_options)")
        case (Some err)
        with run Inr have "w' = emit (Out Blank) w" by (auto simp: unf)
        with i0 show ?thesis by simp
      next
        case None
        let ?w0 = "emit (Out (LabelPanel label_options)) (emit (Out Blank) w)"
        let ?es = "[Out Blank, Out (LabelPanel label_options), Ask SelectLabel]"
        obtain r1 w1 where p: "Prompt_ask SelectLabel None (Some ''F'') ?w0 = (r1, w1)"
          by (cases "Prompt_ask SelectLabel None (Some ''F'') ?w0")
        have l0: "later ?w0 w1" by (rule frameD [OF frame_Prompt_ask p])
        have l1: "later w w1" by (rule later_emit_left [OF later_emit_left [OF l0]])
        from p have "new_events ?w0 w1 = [Ask SelectLabel]"
          by (auto simp: Prompt_ask_no_choices split: list.splits)
        with new_events_step [OF l0, of w "[Out Blank, Out (LabelPanel label_options)]"]
        have ne1: "new_events w w1 = ?es" by simp
        with trace_new_events [OF l1] have tr1: "trace w1 = trace w @ ?es" by simp
        have "I (((pre @ [Out Blank]) @ [Out (LabelPanel label_options)]) @ [Ask SelectLabel])"
          by (intro keepsD [OF k3] keepsD [OF k2] i0)
        then have i1: "I (pre @ ?es)" by simp
        show ?thesis
        proof (cases r1)
          case (Inl e)
          with run Inr None p have "w' = w1" by (simp add: unf)
          with i1 ne1 show ?thesis by simp
        next
          case sel: (Inr label_selection)
          note p' = p [unfolded sel]
          consider (finish) "upper label_selection = ''F''"
            | (new) "upper label_selection \<noteq> ''F''" "label_selection = ''0''"
            | (pick) label where "upper label_selection \<noteq> ''F''" "label_selection \<noteq> ''0''"
                "map_of label_choices label_selection = Some label"
            | (invalid) "upper label_selection \<noteq> ''F''" "label_selection \<noteq> ''0''"
                "map_of label_choices label_selection = None"
            by (cases "map_of label_choices label_selection") auto
          then show ?thesis
          proof cases
            case finish
            with run Inr None p sel have "w' = w1" by (simp add: unf)
            with i1 ne1 show ?thesis by simp
          next
            case new
            obtain r2 w2 where cn: "create_new_label c board_id w1 = (r2, w2)"
              by (cases "create_new_label c board_id w1")
            have l2: "later w1 w2" by (rule frameD [OF frame_create_new_label cn])
            have ne2: "new_events w w2 = ?es @ new_events w1 w2"
              using new_events_trans [OF l1 l2] ne1 by simp
            from tripleD [OF \<open>triple I (create_new_label c board_id) (\<lambda>r. I)\<close> cn i1]
            have i2: "I (pre @ new_events w w2)" by (simp add: ne2)
            show ?thesis
            proof (cases r2)
              case (Inl e)
              with run Inr None p sel new cn have "w' = w2" by (simp add: unf)
              with i2 show ?thesis by simp
            next
              case nl: (Inr new_label)
              show ?thesis
              proof (cases "getitem new_label ''id''")
                case (Inl e)
                with run Inr None p sel new cn nl have "w' = w2" by (simp add: unf)
                with i2 show ?thesis by simp
              next
                case nid: (Inr new_id)
                with run Inr None p sel new cn nl
                have rec: "select_labels_loop c board_id
                        (AList.update (str_nat (length label_choices + 1)) new_label label_choices)
                        (selected_label_ids @ [new_id]) w2 = (r, w')"
                  by (simp add: unf)
                have l3: "later w2 w'" by (rule frameD [OF frame_select_labels_loop rec])
                from "1.IH"(1) [OF Inr None p' new(1) new(2) cn [unfolded nl] nid rec i2]
                have "I ((pre @ new_events w w2) @ new_events w2 w')" .
                then show ?thesis
                  by (simp add: new_events_trans [OF later_trans [OF l1 l2] l3])
              qed
            qed
          next
            case pick
            show ?thesis
            proof (cases "getitem label ''id''")
              case (Inl e)
              with run Inr None p sel pick have "w' = w1" by (simp add: unf)
              with i1 ne1 show ?thesis by simp
            next
              case lid: (Inr label_id)
              let ?m = "Out (LabelSelected (length (selected_label_ids @ [label_id])))"
              from run Inr None p sel pick lid
              have rec: "select_labels_loop c board_id label_choices (selected_label_ids @ [label_id])
                      (emit ?m w1) = (r, w')"
                by (simp add: unf)
              have l3: "later (emit ?m w1) w'" by (rule frameD [OF frame_select_labels_loop rec])
              have ne: "new_events w w' = (?es @ [?m]) @ new_events (emit ?m w1) w'"
                by (rule new_events_step [OF l3]) (simp add: tr1)
              have "I ((pre @ ?es) @ [?m])" by (rule keepsD [OF k4 i1])
              then have "I (pre @ ?es @ [?m])" by simp
              from "1.IH"(2) [OF Inr None p' pick(1) pick(2) pick(3) lid rec this]
              show ?thesis by (simp add: ne)
            qed
          next
            case invalid
            let ?m = "Out (InvalidSelection label_selection)"
            show ?thesis
            proof (cases "print_error (lib w1) (InvalidSelection label_selection)")
              case (Some err)
              with run Inr None p sel invalid have "w' = w1" by (simp add: unf)
              with i1 ne1 show ?thesis by simp
            next
              case refused: None
              with run Inr None p sel invalid
              have rec: "select_labels_loop c board_id label_choices selected_label_ids
                      (emit ?m w1) = (r, w')"
                by (simp add: unf)
              have l3: "later (emit ?m w1) w'" by (rule frameD [OF frame_select_labels_loop rec])
              have ne: "new_events w w' = (?es @ [?m]) @ new_events (emit ?m w1) w'"
                by (rule new_events_step [OF l3]) (simp add: tr1)
              have "I ((pre @ ?es) @ [?m])" by (rule keepsD [OF k5 i1])
              then have "I (pre @ ?es @ [?m])" by simp
              from "1.IH"(3) [OF Inr None p' invalid(1) invalid(2) invalid(3) refused rec this]
              show ?thesis by (simp add: ne)
            qed
          qed
        qed
      qed
    qed
  qed
  then show ?thesis unfolding triple_def by (auto intro: frame_select_labels_loop)
qed


text \<open>
  The order of one pass, as an automaton over the events: the boards are requested, a
  board is chosen, the lists are requested, a list is chosen, the title is asked for
  (again after each refusal), the description is asked for, the labels are requested
  (and labels may be created), the selection is summed up, the card is created, a
  comment may be posted. A request or a milestone out of its place is refused; every
  other event leaves the phase as it is.
\<close>

datatype phase =
    Start
  | BoardsFetched
  | BoardChosen
  | ListsFetched
  | ListChosen
  | DetailsAsked
  | DetailsDone
  | LabelsFetched
  | LabelsDone
  | CardCreated
  | CommentPosted

fun advance :: "phase \<Rightarrow> event \<Rightarrow> phase option" where
  "advance ph (Http GET base MembersMeBoards d) = (if ph = Start then Some BoardsFetched else None)"
| "advance ph (Http GET base (BoardLists board_id) d) =
     (if ph = BoardChosen then Some ListsFetched else None)"
| "advance ph (Http GET base (BoardLabels board_id) d) =
     (if ph = DetailsDone then Some LabelsFetched else None)"
| "advance ph (Http POST base Labels d) = (if ph = LabelsFetched then Some LabelsFetched else None)"
| "advance ph (Http POST base Cards d) = (if ph = LabelsDone then Some CardCreated else None)"
| "advance ph (Http POST base (CardComments card_id) d) =
     (if ph = CardCreated then Some CommentPosted else None)"
| "advance ph (Http m base ep d) = None"
| "advance ph (Out (SelectedBoard name)) = (if ph = BoardsFetched then Some BoardChosen else None)"
| "advance ph (Out (SelectedColumn name)) = (if ph = ListsFetched then Some ListChosen else None)"
| "advance ph (Ask EnterCardTitle) =
     (if ph = ListChosen \<or> ph = DetailsAsked then Some DetailsAsked else None)"
| "advance ph (Ask EnterCardDescription) = (if ph = DetailsAsked then Some DetailsDone else None)"
| "advance ph (Out NoLabelsSelected) = (if ph = LabelsFetched then Some LabelsDone else None)"
| "advance ph (Out (LabelsSelected n)) = (if ph = LabelsFetched then Some LabelsDone else None)"
| "advance ph e = Some ph"

fun run :: "phase \<Rightarrow> event list \<Rightarrow> phase option" where
  "run ph [] = Some ph"
| "run ph (e # es) = (case advance ph e of None \<Rightarrow> None | Some ph' \<Rightarrow> run ph' es)"

definition at :: "phase \<Rightarrow> event list \<Rightarrow> bool" where
  "at ph evs \<longleftrightarrow> run Start evs = Some ph"

definition in_order :: "event list \<Rightarrow> bool" where
  "in_order evs \<longleftrightarrow> run Start evs \<noteq> None"

lemma run_append:
  "run ph (es @ es') = (case run ph es of None \<Rightarrow> None | Some ph' \<Rightarrow> run ph' es')"
  by (induction es arbitrary: ph) (auto split: option.splits)

lemma at_step: "at ph evs \<Longrightarrow> advance ph e = Some ph' \<Longrightarrow> at ph' (evs @ [e])"
  by (simp add: at_def run_append)

lemma at_in_order: "at ph evs \<Longrightarrow> in_order evs"
  by (simp add: at_def in_order_def)

lemma keeps_at: "advance ph e = Some ph \<Longrightarrow> keeps (at ph) e"
  by (simp add: keeps_def at_step)

lemma keeps_in_order: "(\<And>ph. advance ph e = Some ph) \<Longrightarrow> keeps in_order e"
  by (auto simp: keeps_def in_order_def run_append)


text \<open>\<open>reaches ph good\<close>: the events are in order, and they have come to phase \<open>ph\<close> when
  the step returned a value that is \<open>good\<close>.\<close>

definition reaches :: "phase \<Rightarrow> ('a \<Rightarrow> bool) \<Rightarrow> error + 'a \<Rightarrow> event list \<Rightarrow> bool" where
  "reaches ph good r evs \<longleftrightarrow> in_order evs \<and> (\<forall>x. r = Inr x \<longrightarrow> good x \<longrightarrow> at ph evs)"

lemma reaches_error: "at ph' evs \<Longrightarrow> reaches ph good (Inl e) evs"
  by (simp add: reaches_def at_in_order)

lemma reaches_at: "at ph evs \<Longrightarrow> reaches ph good r evs"
  by (simp add: reaches_def at_in_order)

lemma bind_move:
  assumes "triple (at p) m (\<lambda>r. at q)"
    and "\<And>e evs. at q evs \<Longrightarrow> C (Inl e) evs"
    and "\<And>x. triple (at q) (f x) C"
  shows "triple (at p) (io_bind m f) C"
  using assms(1) assms(2) assms(3) by (rule triple_bind [where B = "\<lambda>r. at q"])

text \<open>A print that raises leaves the phase as it was.\<close>

lemma bind_print:
  assumes "advance p (Out m) = Some q"
    and "\<And>e evs. at p evs \<Longrightarrow> C (Inl e) evs"
    and "\<And>x. triple (at q) (f x) C"
  shows "triple (at p) (io_bind (console_print m) f) C"
proof -
  have "triple (at p) (console_print m) (\<lambda>r evs. if r = Inr () then at q evs else at p evs)"
    by (rule triple_console_print) (simp_all add: at_step [OF _ assms(1)])
  then show ?thesis
    by (rule triple_bind) (simp_all add: assms(2) assms(3))
qed

lemma move_get:
  "advance p (Http GET TRELLO_API_BASE_URL ep (merged c params)) = Some q \<Longrightarrow>
   triple (at p) (trello_get c ep params) (\<lambda>r. at q)"
  by (rule triple_trello_get) (rule at_step)

lemma move_post:
  "advance p (Http POST TRELLO_API_BASE_URL ep (merged c data)) = Some q \<Longrightarrow>
   triple (at p) (trello_post c ep data) (\<lambda>r. at q)"
  by (rule triple_trello_post) (rule at_step)

lemma move_lift: "triple (at p) (io_lift r) (\<lambda>r. at p)"
  by (rule triple_lift)

lemma move_ask: "advance p (Ask pr) = Some q \<Longrightarrow> triple (at p) (Prompt_ask pr None dflt) (\<lambda>r. at q)"
  by (rule triple_Prompt_ask_no_choices) (rule at_step)

lemma stay_choose:
  "advance p (Ask pr) = Some p \<Longrightarrow> triple (at p) (Prompt_ask pr choices dflt) (\<lambda>r. at p)"
  by (rule triple_weaken [OF triple_Prompt_ask [where I = "at p"]])
     (auto intro: keeps_at)

lemma stay_confirm:
  "advance p (Ask pr) = Some p \<Longrightarrow> triple (at p) (Confirm_ask pr dflt) (\<lambda>r. at p)"
  by (rule triple_Confirm_ask) (auto intro: keeps_at)

lemma order_select_board:
  "triple (at Start) (select_board c) (reaches BoardChosen truthy)"
  unfolding select_board_def get_boards_def Let_def
  apply (rule bind_move [where q = BoardsFetched])
    apply (rule move_get, simp)
   apply (erule reaches_error)
  apply (rule triple_if)
   apply (rule bind_print [where q = BoardsFetched])
     apply simp
    apply (erule reaches_error)
   apply (rule triple_lift, simp add: reaches_def at_in_order)
  apply (rule bind_move [where q = BoardsFetched], rule move_lift, erule reaches_error)
  apply (rule bind_move [where q = BoardsFetched], rule move_lift, erule reaches_error)
  apply (rule bind_print [where q = BoardsFetched], simp, erule reaches_error)
  apply (rule bind_move [where q = BoardsFetched], rule stay_choose, simp, erule reaches_error)
  apply (rule bind_move [where q = BoardsFetched], rule move_lift, erule reaches_error)
  apply (rule bind_move [where q = BoardsFetched], rule move_lift, erule reaches_error)
  apply (rule bind_print [where q = BoardChosen], simp, erule reaches_error)
  apply (rule triple_lift, erule reaches_at)
  done

lemma order_select_list:
  "triple (at BoardChosen) (select_list c board_id) (reaches ListChosen truthy)"
  unfolding select_list_def get_lists_def Let_def
  apply (rule bind_move [where q = ListsFetched])
    apply (rule move_get, simp)
   apply (erule reaches_error)
  apply (rule triple_if)
   apply (rule bind_print [where q = ListsFetched])
     apply simp
    apply (erule reaches_error)
   apply (rule triple_lift, simp add: reaches_def at_in_order)
  apply (rule bind_move [where q = ListsFetched], rule move_lift, erule reaches_error)
  apply (rule bind_move [where q = ListsFetched], rule move_lift, erule reaches_error)
  apply (rule bind_print [where q = ListsFetched], simp, erule reaches_error)
  apply (rule bind_move [where q = ListsFetched], rule stay_choose, simp, erule reaches_error)
  apply (rule bind_move [where q = ListsFetched], rule move_lift, erule reaches_error)
  apply (rule bind_move [where q = ListsFetched], rule move_lift, erule reaches_error)
  apply (rule bind_print [where q = ListChosen], simp, erule reaches_error)
  apply (rule triple_lift, erule reaches_at)
  done

lemma order_get_card_details:
  "triple (at ListChosen) get_card_details (reaches DetailsDone (\<lambda>details. True))"
  unfolding get_card_details_def
  apply (rule bind_print [where q = ListChosen], simp, erule reaches_error)
  apply (rule bind_move [where q = DetailsAsked], rule move_ask, simp, erule reaches_error)
  apply (rule bind_move [where q = DetailsAsked])
    apply (rule triple_weaken [OF triple_title_loop [where I = "at DetailsAsked"]])
       apply (rule keeps_at, simp)
      apply (rule keeps_at, simp)
     apply assumption
    apply simp
   apply (erule reaches_error)
  apply (rule bind_move [where q = DetailsDone], rule move_ask, simp, erule reaches_error)
  apply (rule triple_lift, erule reaches_at)
  done

lemma order_create_new_label:
  "triple (at LabelsFetched) (create_new_label c board_id) (\<lambda>r. at LabelsFetched)"
  by (rule triple_create_new_label) (auto intro!: keeps_at simp: label_request_def)

lemma order_select_labels:
  "triple (at DetailsDone) (select_labels c board_id) (reaches LabelsFetched (\<lambda>ids. True))"
  unfolding select_labels_def get_labels_def
  apply (rule bind_move [where q = LabelsFetched], rule move_get, simp, erule reaches_error)
  apply (rule bind_move [where q = LabelsFetched], rule move_lift, erule reaches_error)
  apply (rule triple_weaken [OF triple_select_labels_loop [where I = "at LabelsFetched"]])
         apply (rule keeps_at, simp)+
     apply (rule order_create_new_label)
    apply assumption
   apply (erule reaches_at)
  done


lemma strengthen_pre: "triple A' m B \<Longrightarrow> (\<And>pre. A pre \<Longrightarrow> A' pre) \<Longrightarrow> triple A m B"
  unfolding triple_def by blast

definition posted :: "event list \<Rightarrow> bool" where
  "posted evs \<longleftrightarrow> at CardCreated evs \<or> at CommentPosted evs"

lemma posted_in_order: "posted evs \<Longrightarrow> in_order evs"
  by (auto simp: posted_def at_in_order)

lemma keeps_posted:
  "advance CardCreated e = Some CardCreated \<Longrightarrow> advance CommentPosted e = Some CommentPosted
   \<Longrightarrow> keeps posted e"
  by (auto simp: keeps_def posted_def at_step)

lemma order_ask_again:
  assumes "\<And>ph. advance ph (Ask pr) = Some ph"
  shows "triple in_order (io_bind (Confirm_ask pr dflt) (\<lambda>again. io_lift (g again))) (\<lambda>r. in_order)"
  apply (rule triple_bind [where B = "\<lambda>r. in_order"])
    apply (rule triple_Confirm_ask)
     apply (rule keeps_in_order, rule assms)
    apply (rule keeps_in_order, simp)
   apply assumption
  apply (rule triple_lift, assumption)
  done

lemma order_after_card:
  "triple posted
     (io_bind (console_print (CardAdded title)) (\<lambda>_.
      io_bind (Confirm_ask AddAnotherCard False) (\<lambda>another. io_lift (g another))))
     (\<lambda>r. in_order)"
  apply (rule triple_bind [where B = "\<lambda>r. posted"])
    apply (rule triple_console_print)
     apply (erule keepsD [OF keeps_posted, rotated 2], simp, simp)
    apply assumption
   apply (erule posted_in_order)
  apply (rule triple_bind [where B = "\<lambda>r. posted"])
    apply (rule triple_Confirm_ask)
     apply (rule keeps_posted, simp, simp)
    apply (rule keeps_posted, simp, simp)
   apply (erule posted_in_order)
  apply (rule triple_lift, erule posted_in_order)
  done

lemma order_comment:
  "triple (at CardCreated)
     (if add_comment_option then
        io_bind (Prompt_ask EnterComment None None) (\<lambda>comment_text.
        io_bind (io_lift (getitem card_json ''id'')) (\<lambda>card_id.
        io_bind (add_comment c card_id comment_text) (\<lambda>_.
        console_print CommentAdded)))
      else io_lift (Inr ()))
     (\<lambda>r. posted)"
  unfolding add_comment_def Let_def
  apply (rule triple_if)
   apply (rule bind_move [where q = CardCreated], rule move_ask, simp, simp add: posted_def)
   apply (rule bind_move [where q = CardCreated], rule move_lift, simp add: posted_def)
   apply (rule bind_move [where q = CommentPosted], rule move_post, simp, simp add: posted_def)
   apply (rule triple_console_print, simp add: posted_def at_step, simp add: posted_def)
  apply (rule triple_lift, simp add: posted_def)
  done

lemma order_add_card_body: "triple (at Start) (add_card_body c) (\<lambda>r. in_order)"
  unfolding add_card_body_def Let_def create_card_def
  apply (rule bind_print [where q = Start], simp, erule at_in_order)
  apply (rule triple_bind [OF order_select_board])
   apply (simp add: reaches_def)
  apply (rule triple_if)
   apply (rule strengthen_pre [OF order_ask_again], simp, simp add: reaches_def)
  apply (rule strengthen_pre [where A' = "at BoardChosen"])
   prefer 2 apply (simp add: reaches_def)
  apply (rule triple_bind [OF order_select_list])
   apply (simp add: reaches_def)
  apply (rule triple_if)
   apply (rule strengthen_pre [OF order_ask_again], simp, simp add: reaches_def)
  apply (rule strengthen_pre [where A' = "at ListChosen"])
   prefer 2 apply (simp add: reaches_def)
  apply (rule triple_bind [OF order_get_card_details])
   apply (simp add: reaches_def)
  apply (rule strengthen_pre [where A' = "at DetailsDone"])
   prefer 2 apply (simp add: reaches_def)
  apply (rule triple_bind [OF order_select_labels])
   apply (simp add: reaches_def)
  apply (rule strengthen_pre [where A' = "at LabelsFetched"])
   prefer 2 apply (simp add: reaches_def)
  apply (rule bind_print [where q = LabelsDone], simp, erule at_in_order)
  apply (rule bind_move [where q = LabelsDone], rule move_lift, erule at_in_order)
  apply (rule bind_move [where q = CardCreated], rule move_post, simp, erule at_in_order)
  apply (rule bind_move [where q = CardCreated], rule stay_confirm, simp, erule at_in_order)
  apply (rule triple_bind [OF order_comment])
   apply (erule posted_in_order)
  apply (rule order_after_card)
  done


text \<open>\<open>precedes P Q evs\<close>: no event \<open>Q\<close> stands before the first event \<open>P\<close>; with no
  event \<open>P\<close> at all there is no event \<open>Q\<close>.\<close>

fun precedes :: "('a \<Rightarrow> bool) \<Rightarrow> ('a \<Rightarrow> bool) \<Rightarrow> 'a list \<Rightarrow> bool" where
  "precedes P Q [] = True"
| "precedes P Q (x # xs) = (if P x then True else if Q x then False else precedes P Q xs)"

fun is_boards_request :: "event \<Rightarrow> bool" where
  "is_boards_request (Http m base ep d) = (m = GET \<and> ep = MembersMeBoards)"
| "is_boards_request _ = False"

fun is_lists_request :: "event \<Rightarrow> bool" where
  "is_lists_request (Http m base ep d) = (m = GET \<and> (case ep of BoardLists b \<Rightarrow> True | _ \<Rightarrow> False))"
| "is_lists_request _ = False"

fun is_labels_request :: "event \<Rightarrow> bool" where
  "is_labels_request (Http m base ep d) = (m = GET \<and> (case ep of BoardLabels b \<Rightarrow> True | _ \<Rightarrow> False))"
| "is_labels_request _ = False"

fun is_comment_request :: "event \<Rightarrow> bool" where
  "is_comment_request (Http m base ep d) = (m = POST \<and> (case ep of CardComments i \<Rightarrow> True | _ \<Rightarrow> False))"
| "is_comment_request _ = False"

fun board_selected :: "event \<Rightarrow> bool" where
  "board_selected (Out (SelectedBoard name)) = True"
| "board_selected _ = False"

fun list_selected :: "event \<Rightarrow> bool" where
  "list_selected (Out (SelectedColumn name)) = True"
| "list_selected _ = False"

fun title_asked :: "event \<Rightarrow> bool" where
  "title_asked (Ask EnterCardTitle) = True"
| "title_asked _ = False"

fun description_asked :: "event \<Rightarrow> bool" where
  "description_asked (Ask EnterCardDescription) = True"
| "description_asked _ = False"

fun labels_summed_up :: "event \<Rightarrow> bool" where
  "labels_summed_up (Out NoLabelsSelected) = True"
| "labels_summed_up (Out (LabelsSelected n)) = True"
| "labels_summed_up _ = False"

fun rank :: "phase \<Rightarrow> nat" where
  "rank Start = 0"
| "rank BoardsFetched = 1"
| "rank BoardChosen = 2"
| "rank ListsFetched = 3"
| "rank ListChosen = 4"
| "rank DetailsAsked = 5"
| "rank DetailsDone = 6"
| "rank LabelsFetched = 7"
| "rank LabelsDone = 8"
| "rank CardCreated = 9"
| "rank CommentPosted = 10"

lemma precedes_run:
  assumes A: "\<And>ph e ph'. advance ph e = Some ph' \<Longrightarrow> rank ph < k \<Longrightarrow> \<not> P e \<Longrightarrow> rank ph' < k"
    and B: "\<And>ph e. Q e \<Longrightarrow> rank ph < k \<Longrightarrow> advance ph e = None"
  shows "run ph evs \<noteq> None \<Longrightarrow> rank ph < k \<Longrightarrow> precedes P Q evs"
proof (induction evs arbitrary: ph)
  case Nil
  show ?case by simp
next
  case (Cons e es)
  from Cons.prems(1) obtain ph' where adv: "advance ph e = Some ph'" and rest: "run ph' es \<noteq> None"
    by (auto split: option.splits)
  show ?case
  proof (cases "P e")
    case True
    then show ?thesis by simp
  next
    case False
    from adv B [of e ph] Cons.prems(2) have "\<not> Q e" by auto
    moreover from A [OF adv Cons.prems(2) False] rest have "precedes P Q es"
      by (rule Cons.IH [rotated])
    ultimately show ?thesis using False by simp
  qed
qed

lemma in_order_precedes:
  assumes "\<And>ph e ph'. advance ph e = Some ph' \<Longrightarrow> rank ph < k \<Longrightarrow> \<not> P e \<Longrightarrow> rank ph' < k"
    and "\<And>ph e. Q e \<Longrightarrow> rank ph < k \<Longrightarrow> advance ph e = None"
    and "in_order evs" "0 < k"
  shows "precedes P Q evs"
  using assms(3,4) by (intro precedes_run [OF assms(1,2), where ph = Start]) (simp_all add: in_order_def)

lemma boards_before_lists:
  "in_order evs \<Longrightarrow> precedes is_boards_request is_lists_request evs"
proof (rule in_order_precedes [where k = 1], goal_cases)
  case (1 ph e ph')
  then show ?case by (cases "(ph, e)" rule: advance.cases) (auto split: if_splits)
next
  case (2 ph e)
  then show ?case by (cases "(ph, e)" rule: advance.cases) (auto split: if_splits)
qed simp_all


lemma lists_before_title:
  "in_order evs \<Longrightarrow> precedes is_lists_request title_asked evs"
proof (rule in_order_precedes [where k = 3], goal_cases)
  case (1 ph e ph')
  then show ?case by (cases "(ph, e)" rule: advance.cases) (auto split: if_splits)
next
  case (2 ph e)
  then show ?case by (cases "(ph, e)" rule: advance.cases) (auto split: if_splits)
qed simp_all

lemma description_before_labels:
  "in_order evs \<Longrightarrow> precedes description_asked is_labels_request evs"
proof (rule in_order_precedes [where k = 6], goal_cases)
  case (1 ph e ph')
  then show ?case by (cases "(ph, e)" rule: advance.cases) (auto split: if_splits)
next
  case (2 ph e)
  then show ?case by (cases "(ph, e)" rule: advance.cases) (auto split: if_splits)
qed simp_all

lemma labels_before_card:
  "in_order evs \<Longrightarrow> precedes is_labels_request is_card_request evs"
proof (rule in_order_precedes [where k = 7], goal_cases)
  case (1 ph e ph')
  then show ?case by (cases "(ph, e)" rule: advance.cases) (auto split: if_splits)
next
  case (2 ph e)
  then show ?case by (cases "(ph, e)" rule: advance.cases) (auto split: if_splits)
qed simp_all

lemma board_selected_before_card:
  "in_order evs \<Longrightarrow> precedes board_selected is_card_request evs"
proof (rule in_order_precedes [where k = 2], goal_cases)
  case (1 ph e ph')
  then show ?case by (cases "(ph, e)" rule: advance.cases) (auto split: if_splits)
next
  case (2 ph e)
  then show ?case by (cases "(ph, e)" rule: advance.cases) (auto split: if_splits)
qed simp_all

lemma list_selected_before_card:
  "in_order evs \<Longrightarrow> precedes list_selected is_card_request evs"
proof (rule in_order_precedes [where k = 4], goal_cases)
  case (1 ph e ph')
  then show ?case by (cases "(ph, e)" rule: advance.cases) (auto split: if_splits)
next
  case (2 ph e)
  then show ?case by (cases "(ph, e)" rule: advance.cases) (auto split: if_splits)
qed simp_all

lemma description_before_card:
  "in_order evs \<Longrightarrow> precedes description_asked is_card_request evs"
proof (rule in_order_precedes [where k = 6], goal_cases)
  case (1 ph e ph')
  then show ?case by (cases "(ph, e)" rule: advance.cases) (auto split: if_splits)
next
  case (2 ph e)
  then show ?case by (cases "(ph, e)" rule: advance.cases) (auto split: if_splits)
qed simp_all

lemma labels_summed_up_before_card:
  "in_order evs \<Longrightarrow> precedes labels_summed_up is_card_request evs"
proof (rule in_order_precedes [where k = 8], goal_cases)
  case (1 ph e ph')
  then show ?case by (cases "(ph, e)" rule: advance.cases) (auto split: if_splits)
next
  case (2 ph e)
  then show ?case by (cases "(ph, e)" rule: advance.cases) (auto split: if_splits)
qed simp_all

lemma card_before_comment:
  "in_order evs \<Longrightarrow> precedes is_card_request is_comment_request evs"
proof (rule in_order_precedes [where k = 9], goal_cases)
  case (1 ph e ph')
  then show ?case by (cases "(ph, e)" rule: advance.cases) (auto split: if_splits)
next
  case (2 ph e)
  then show ?case by (cases "(ph, e)" rule: advance.cases) (auto split: if_splits)
qed simp_all

text \<open>
  Claim C8. Whatever the server answers and the user types, and however the pass ends,
  the events of one pass through the body of the loop of \<open>add_card\<close> are in order: the
  boards request, the choice of the board, the lists request, the choice of the list,
  the title and description prompts, the labels request (with label creations after
  it), the summary of the selection, the card creation, the comment. In particular no
  card-creation request is sent before the board was chosen, the list was chosen, the
  description was asked for and the label selection was summed up, and no comment
  request is sent before the card-creation request.
\<close>

theorem pass_in_order:
  assumes "add_card_body c w = (r, w')"
  shows "in_order (new_events w w') \<and>
         precedes is_boards_request is_lists_request (new_events w w') \<and>
         precedes is_lists_request title_asked (new_events w w') \<and>
         precedes description_asked is_labels_request (new_events w w') \<and>
         precedes is_labels_request is_card_request (new_events w w') \<and>
         precedes board_selected is_card_request (new_events w w') \<and>
         precedes list_selected is_card_request (new_events w w') \<and>
         precedes description_asked is_card_request (new_events w w') \<and>
         precedes labels_summed_up is_card_request (new_events w w') \<and>
         precedes is_card_request is_comment_request (new_events w w')"
proof -
  have "at Start []" by (simp add: at_def)
  from tripleD [OF order_add_card_body assms this]
  have "in_order (new_events w w')" by simp
  then show ?thesis
    by (intro conjI boards_before_lists lists_before_title description_before_labels
        labels_before_card board_selected_before_card list_selected_before_card
        description_before_card labels_summed_up_before_card card_before_comment)
qed

lemma demo_body_run:
  "add_card_body c0 demo_world =
    (Inr Break,
     demo_world\<lparr>stdin := [],
       trace := trace demo_world @
         [Out Blank,
          get_request c0 MembersMeBoards ''name,id'',
          Out (BoardPanel [(''1'', JStr ''Board'')]), Ask SelectBoard, Out (SelectedBoard (JStr ''Board'')),
          get_request c0 (BoardLists (JStr ''B1'')) ''name,id'',
          Out (ListPanel [(''1'', JStr ''To Do'')]), Ask SelectColumn, Out (SelectedColumn (JStr ''To Do'')),
          Out AddCardDetails, Ask EnterCardTitle, Ask EnterCardDescription,
          get_request c0 (BoardLabels (JStr ''B1'')) ''name,color,id'',
          Out Blank, Out (LabelPanel [CreateNewLabelLine, FinishLine]), Ask SelectLabel,
          Out NoLabelsSelected,
          card_request c0 (JStr ''L1'') ''Test Card'' (strip []) [],
          Ask AddCommentOption, Out (CardAdded ''Test Card''), Ask AddAnotherCard]\<rparr>)"
proof -
  have inp: "stdin demo_world = [''1'', ''1'', ''Test Card'', [], ''F'', ''n'', ''n'']"
    by (simp add: demo_world_def)
  have a: "''F'' = [] \<or> upper (strip ''F'') = ''F''" "''n'' = [] \<or> lower (strip ''n'') = ''n''"
    by (simp_all add: strip_def isspace_def lower_def lower_char_def upper_def upper_char_def)
  have opts: "create_label_options (enumerate1 []) = Inr [CreateNewLabelLine, FinishLine]"
    by (simp add: create_label_options_def enumerate1_def)
  show ?thesis
    by (rule single_run [where board = "[(''id'', JStr ''B1''), (''name'', JStr ''Board'')]"
          and lst = "[(''id'', JStr ''L1''), (''name'', JStr ''To Do'')]" and labels = "[]"
          and card_json = "JObj [(''id'', JStr ''C1''), (''name'', JStr ''Test Card'')]",
          OF _ _ _ _ _ _ _ _ _ opts _ _ _ _ _ _ inp a(1) a(2) a(2)])
       (simp_all add: demo_world_def demo_server_def demo_shown outcome_of_def ok_response_def
        plain_response_def)
qed

theorem pass_in_order_witness:
  "fst (add_card_body c0 demo_world) = Inr Break \<and>
   in_order (new_events demo_world (snd (add_card_body c0 demo_world))) \<and>
   precedes labels_summed_up is_card_request (new_events demo_world (snd (add_card_body c0 demo_world))) \<and>
   list_ex is_card_request (new_events demo_world (snd (add_card_body c0 demo_world)))"
proof -
  have run: "add_card_body c0 demo_world =
      (fst (add_card_body c0 demo_world), snd (add_card_body c0 demo_world))"
    by simp
  from pass_in_order [OF run]
  have "in_order (new_events demo_world (snd (add_card_body c0 demo_world)))"
    "precedes labels_summed_up is_card_request (new_events demo_world (snd (add_card_body c0 demo_world)))"
    by blast+
  moreover have "fst (add_card_body c0 demo_world) = Inr Break"
    by (simp add: demo_body_run)
  moreover have "list_ex is_card_request (new_events demo_world (snd (add_card_body c0 demo_world)))"
    by (simp add: demo_body_run new_events_def get_request_def card_request_def)
  ultimately show ?thesis by blast
qed

end
